theory Spec2Isabelle
  imports Main
begin

section \<open>Python values used by \<open>decorators.py\<close>\<close>

text \<open>
  A dictionary is an association list in insertion order, as Python iterates it; a key
  that is stored again keeps its place and takes the new value.
\<close>

type_synonym 'v dict = "(string \<times> 'v) list"

definition dict_keys :: "'v dict \<Rightarrow> string list" where
  "dict_keys d = map fst d"

definition dict_contains :: "'v dict \<Rightarrow> string \<Rightarrow> bool" where
  "dict_contains d k = (k \<in> set (dict_keys d))"

fun dict_setitem :: "'v dict \<Rightarrow> string \<Rightarrow> 'v \<Rightarrow> 'v dict" where
  "dict_setitem [] k v = [(k, v)]"
| "dict_setitem ((k', v') # d) k v =
     (if k' = k then (k, v) # d else (k', v') # dict_setitem d k v)"

fun dict_update :: "'v dict \<Rightarrow> 'v dict \<Rightarrow> 'v dict" where
  "dict_update d [] = d"
| "dict_update d ((k, v) # other) = dict_update (dict_setitem d k v) other"

text \<open>
  Dictionaries are mutable objects reached through references. The store maps each
  address to the dictionary that lives there; \<open>alloc\<close> is the creation of a new
  dictionary object, \<open>store_set\<close> an update in place.
\<close>

record 'v store =
  next_addr :: nat
  cells :: "nat \<Rightarrow> 'v dict"

definition empty_store :: "'v store" where
  "empty_store = \<lparr>next_addr = 0, cells = (\<lambda>_. [])\<rparr>"

definition alloc :: "'v dict \<Rightarrow> 'v store \<Rightarrow> nat \<times> 'v store" where
  "alloc d s =
     (next_addr s, \<lparr>next_addr = Suc (next_addr s), cells = (cells s)(next_addr s := d)\<rparr>)"

definition store_set :: "nat \<Rightarrow> 'v dict \<Rightarrow> 'v store \<Rightarrow> 'v store" where
  "store_set a d s = s\<lparr>cells := (cells s)(a := d)\<rparr>"

text \<open>
  An arbitrary object, seen through its string-valued attributes and its truth value:
  \<open>obj_attrs o a\<close> is \<open>getattr(o, a)\<close>, with \<open>None\<close> for \<open>AttributeError\<close>, and
  \<open>obj_truthy o\<close> is \<open>bool(o)\<close>, what \<open>if o:\<close> tests. Decorated functions and adapter
  targets are such objects; a function is true, but an object whose class defines
  \<open>__bool__\<close> or \<open>__len__\<close> may be false.
\<close>

record pyobject =
  obj_id :: nat
  obj_truthy :: bool
  obj_attrs :: "string \<rightharpoonup> string"

text \<open>
  A wrapper behaviour is a function defined with \<open>def\<close>: it has a module, a name and a
  qualified name, and \<open>fn_args\<close> is what \<open>getargspec(wrapper).args\<close> reads from it.
\<close>

record pyfunction =
  fn_module :: string
  fn_name :: string
  fn_qualname :: string
  fn_args :: "string list"

text \<open>The exceptions of \<open>exceptions.py\<close>, each with the values its message is built from.\<close>

datatype unexpected_detail =
    Too_Many_Positional nat nat
  | Unknown_Names "string list"
  | Positional_Also_Keyword string

datatype error =
    MissingDefaultParameter string string
  | UnexpectedDefaultParameters "string set" string
  | UnexpectedParameters unexpected_detail string
  | IndexError

section \<open>The wrapper construct\<close>

record wrapper_construct =
  fw_wrapped :: pyobject
  fw_wrapper :: pyfunction
  fw_params :: "nat option"
  fw_attrs :: "string \<rightharpoonup> string"

text \<open>
  Modelled from the spec: the class \<open>FunctionWrapper\<close> of \<open>wrappers.py\<close>. Its constructor
  takes the wrapped target, the wrapper behaviour and an optional parameter set (a
  reference to the dictionary) and returns the object that owns them; the identity
  attributes it reports are the ones established by the wrapping relationship, that is
  the wrapped target's.
\<close>

definition FunctionWrapper :: "pyobject \<Rightarrow> pyfunction \<Rightarrow> nat option \<Rightarrow> wrapper_construct" where
  "FunctionWrapper wrapped wrapper params =
     \<lparr>fw_wrapped = wrapped, fw_wrapper = wrapper, fw_params = params,
      fw_attrs = obj_attrs wrapped\<rparr>"

definition setattr :: "wrapper_construct \<Rightarrow> string \<Rightarrow> string \<Rightarrow> wrapper_construct" where
  "setattr w attr v = w\<lparr>fw_attrs := (fw_attrs w)(attr \<mapsto> v)\<rparr>"

section \<open>\<open>_update_adapter\<close>\<close>

definition name_attributes :: "string list" where
  "name_attributes = [''__module__'', ''__name__'', ''__qualname__'']"

fun update_adapter_loop :: "string list \<Rightarrow> wrapper_construct \<Rightarrow> pyobject \<Rightarrow> wrapper_construct" where
  "update_adapter_loop [] wrapper target = wrapper"
| "update_adapter_loop (attr # attrs) wrapper target =
     (case obj_attrs target attr of
        None \<Rightarrow> update_adapter_loop attrs wrapper target
      | Some v \<Rightarrow> update_adapter_loop attrs (setattr wrapper attr v) target)"

definition update_adapter :: "wrapper_construct \<Rightarrow> pyobject \<Rightarrow> wrapper_construct" where
  "update_adapter wrapper target = update_adapter_loop name_attributes wrapper target"

section \<open>Function objects and \<open>functools\<close>\<close>

text \<open>
  A function object made by a nested \<open>def\<close>: its attributes and what calling it does.
\<close>

record 'c function_object =
  fo_attrs :: "string \<rightharpoonup> string"
  fo_call :: 'c

text \<open>
  The \<open>__module__\<close> of a function defined in \<open>decorators.py\<close> is the name of that module;
  \<open>wraps\<close> overwrites it in every function that \<open>decorator\<close> returns.
\<close>

definition this_module :: string where
  "this_module = ''wrapt.decorators''"

definition def_function :: "string \<Rightarrow> string \<Rightarrow> 'c \<Rightarrow> 'c function_object" where
  "def_function name qualname body =
     \<lparr>fo_attrs = [''__module__'' \<mapsto> this_module, ''__name__'' \<mapsto> name,
                  ''__qualname__'' \<mapsto> qualname],
      fo_call = body\<rparr>"

text \<open>
  \<open>functools.wraps(wrapped)\<close> assigns the wrapped function's \<open>__module__\<close>, \<open>__name__\<close>
  and \<open>__qualname__\<close> to the new function (its \<open>__doc__\<close> and \<open>__dict__\<close> are not
  tracked here).
\<close>

definition wraps :: "pyfunction \<Rightarrow> 'c function_object \<Rightarrow> 'c function_object" where
  "wraps wrapped f =
     f\<lparr>fo_attrs := (fo_attrs f)(''__module__'' \<mapsto> fn_module wrapped,
                                 ''__name__'' \<mapsto> fn_name wrapped,
                                 ''__qualname__'' \<mapsto> fn_qualname wrapped)\<rparr>"

section \<open>\<open>decorator\<close>\<close>

definition WRAPPER_ARGLIST :: "string list" where
  "WRAPPER_ARGLIST = [''wrapped'', ''instance'', ''args'', ''kwargs'']"

text \<open>
  The loop over \<open>expected_names\<close> with \<open>received_names.remove(name)\<close>: a name that is
  not in the working set raises \<open>KeyError\<close>, which becomes \<open>MissingDefaultParameter\<close>.
\<close>

fun remove_expected :: "string list \<Rightarrow> string set \<Rightarrow> pyfunction \<Rightarrow> error + string set" where
  "remove_expected [] received_names wrapper = Inr received_names"
| "remove_expected (name # names) received_names wrapper =
     (if name \<in> received_names
      then remove_expected names (received_names - {name}) wrapper
      else Inl (MissingDefaultParameter name (fn_name wrapper)))"

text \<open>
  The truth test \<open>if target:\<close>, where \<open>target\<close> is \<open>None\<close> or an object: \<open>None\<close> is false,
  and an object has its own truth value.
\<close>

definition truth :: "pyobject option \<Rightarrow> bool" where
  "truth target = (case target of None \<Rightarrow> False | Some t \<Rightarrow> obj_truthy t)"

text \<open>The inner \<open>_wrapper(func)\<close> of the parameterised shape.\<close>

definition wrapper_params_fn ::
  "pyfunction \<Rightarrow> pyobject option \<Rightarrow> nat \<Rightarrow> pyobject \<Rightarrow> wrapper_construct" where
  "wrapper_params_fn wrapper target complete_params func =
     (let result = FunctionWrapper func wrapper (Some complete_params)
      in if truth target
         then (case target of
                 Some t \<Rightarrow> update_adapter result t
               | None \<Rightarrow> result)
         else result)"

text \<open>The \<open>_wrapper(func)\<close> of the shape without parameters.\<close>

definition wrapper_fn :: "pyfunction \<Rightarrow> pyobject option \<Rightarrow> pyobject \<Rightarrow> wrapper_construct" where
  "wrapper_fn wrapper target func =
     (let result = FunctionWrapper func wrapper None
      in if truth target
         then (case target of
                 Some t \<Rightarrow> update_adapter result t
               | None \<Rightarrow> result)
         else result)"

text \<open>
  The loop \<open>for i, arg in enumerate(decorator_args)\<close>; it writes into the dictionary
  \<open>decorator_kwargs\<close>, at address \<open>dk\<close>.
\<close>

fun positional_loop ::
  "pyfunction \<Rightarrow> string list \<Rightarrow> nat \<Rightarrow> (nat \<times> 'v) list \<Rightarrow> 'v store \<Rightarrow> error option \<times> 'v store" where
  "positional_loop wrapper expected_names dk [] s = (None, s)"
| "positional_loop wrapper expected_names dk ((i, arg) # rest) s =
     (if length expected_names \<le> i then (Some IndexError, s)
      else if dict_contains (cells s dk) (expected_names ! i)
      then (Some (UnexpectedParameters (Positional_Also_Keyword (expected_names ! i))
                    (fn_name wrapper)), s)
      else positional_loop wrapper expected_names dk rest
             (store_set dk (dict_setitem (cells s dk) (expected_names ! i) arg) s))"

text \<open>
  \<open>_partial(*decorator_args, **decorator_kwargs)\<close>. The closure holds the wrapper, the
  target, the reference \<open>dp\<close> to \<open>default_params\<close> and \<open>expected_names\<close>. The call makes
  a new dictionary for the keyword arguments, and \<open>dict(default_params)\<close> makes another.
\<close>

definition partial_fn ::
  "pyfunction \<Rightarrow> pyobject option \<Rightarrow> nat \<Rightarrow> string list \<Rightarrow> 'v list \<Rightarrow> 'v dict \<Rightarrow> 'v store
     \<Rightarrow> (error + (pyobject \<Rightarrow> wrapper_construct)) \<times> 'v store" where
  "partial_fn wrapper target dp expected_names decorator_args kwargs s0 =
     (let (dk, s1) = alloc kwargs s0 in
      if length decorator_args > length expected_names
      then (Inl (UnexpectedParameters
                   (Too_Many_Positional (length expected_names) (length decorator_args))
                   (fn_name wrapper)), s1)
      else
        let unexpected_params =
              filter (\<lambda>name. \<not> dict_contains (cells s1 dp) name) (dict_keys (cells s1 dk))
        in if unexpected_params \<noteq> []
           then (Inl (UnexpectedParameters (Unknown_Names unexpected_params)
                        (fn_name wrapper)), s1)
           else
             let (complete_params, s2) = alloc (cells s1 dp) s1 in
             case positional_loop wrapper expected_names dk
                    (enumerate 0 decorator_args) s2 of
               (Some e, s3) \<Rightarrow> (Inl e, s3)
             | (None, s3) \<Rightarrow>
                 (Inr (wrapper_params_fn wrapper target complete_params),
                  store_set complete_params
                    (dict_update (cells s3 complete_params) (cells s3 dk)) s3))"

text \<open>
  What \<open>decorator\<close> returns: the user's decorator in one of its two shapes, or itself
  again as a \<open>functools.partial\<close> holding the target and the default parameters.
\<close>

datatype 'v decorator_shape =
    Direct "pyobject \<Rightarrow> wrapper_construct"
  | Parameterized "'v list \<Rightarrow> 'v dict \<Rightarrow> 'v store
                     \<Rightarrow> (error + (pyobject \<Rightarrow> wrapper_construct)) \<times> 'v store"

datatype 'v built =
    User_Decorator "'v decorator_shape function_object"
  | Deferred "pyobject option" "'v dict"

text \<open>
  \<open>decorator(wrapper=None, target=None, **default_params)\<close>. The call collects the
  keyword arguments in a new dictionary, \<open>default_params\<close>; the closure \<open>_partial\<close> keeps
  the reference to it.
\<close>

definition decorator ::
  "pyfunction option \<Rightarrow> pyobject option \<Rightarrow> 'v dict \<Rightarrow> 'v store \<Rightarrow> (error + 'v built) \<times> 'v store" where
  "decorator wrapper_opt target kwargs s0 =
     (let (default_params, s) = alloc kwargs s0 in
      case wrapper_opt of
        Some wrapper \<Rightarrow>
          (let expected_arglist = WRAPPER_ARGLIST;
               complete_arglist = fn_args wrapper;
               received_names = set (dict_keys (cells s default_params));
               expected_names = drop (length expected_arglist) complete_arglist
           in case remove_expected expected_names received_names wrapper of
                Inl e \<Rightarrow> (Inl e, s)
              | Inr received_names' \<Rightarrow>
                  if received_names' \<noteq> {}
                  then (Inl (UnexpectedDefaultParameters received_names' (fn_name wrapper)), s)
                  else if length complete_arglist > length expected_arglist
                  then (Inr (User_Decorator
                          (wraps wrapper
                             (def_function ''_partial'' ''decorator.<locals>._partial''
                                (Parameterized
                                   (partial_fn wrapper target default_params expected_names))))),
                        s)
                  else (Inr (User_Decorator
                          (wraps wrapper
                             (def_function ''_wrapper'' ''decorator.<locals>._wrapper''
                                (Direct (wrapper_fn wrapper target))))),
                        s))
      | None \<Rightarrow> (Inr (Deferred target (cells s default_params)), s))"

text \<open>
  Calling the \<open>functools.partial\<close> object with the wrapper: \<open>decorator\<close> is called with
  the wrapper, the stored target and the stored default parameters.
\<close>

definition call_deferred ::
  "pyobject option \<Rightarrow> 'v dict \<Rightarrow> pyfunction \<Rightarrow> 'v store \<Rightarrow> (error + 'v built) \<times> 'v store" where
  "call_deferred target default_params wrapper s =
     decorator (Some wrapper) target default_params s"

section \<open>Notions used to state the properties\<close>

text \<open>The extra parameter names of a wrapper behaviour: what the slice in \<open>decorator\<close> computes.\<close>

definition expected_names_of :: "pyfunction \<Rightarrow> string list" where
  "expected_names_of wrapper = drop (length WRAPPER_ARGLIST) (fn_args wrapper)"

text \<open>
  A wrapper construct with its parameter set read from the store: the construct without
  the reference, and the dictionary the reference leads to.
\<close>

definition resolve :: "'v store \<Rightarrow> wrapper_construct \<Rightarrow> wrapper_construct \<times> 'v dict option" where
  "resolve s c = (c\<lparr>fw_params := None\<rparr>, map_option (cells s) (fw_params c))"

text \<open>
  What one application of the parameterised decorator yields: the exception, or for each
  function it is then given the resolved wrapper construct.
\<close>

definition application_view ::
  "(error + (pyobject \<Rightarrow> wrapper_construct)) \<times> 'v store
     \<Rightarrow> error + (pyobject \<Rightarrow> wrapper_construct \<times> 'v dict option)" where
  "application_view rs =
     (case fst rs of
        Inl e \<Rightarrow> Inl e
      | Inr g \<Rightarrow> Inr (\<lambda>func. resolve (snd rs) (g func)))"


text \<open>A sequence of applications of the same decorator, each on the store the last one left.\<close>

fun apply_sequence ::
  "('v list \<Rightarrow> 'v dict \<Rightarrow> 'v store \<Rightarrow> (error + (pyobject \<Rightarrow> wrapper_construct)) \<times> 'v store)
     \<Rightarrow> ('v list \<times> 'v dict) list \<Rightarrow> 'v store \<Rightarrow> 'v store" where
  "apply_sequence p [] s = s"
| "apply_sequence p ((args, kwargs) # calls) s = apply_sequence p calls (snd (p args kwargs s))"

section \<open>Dictionaries, the store and the two loops\<close>

lemma dict_keys_setitem:
  "dict_keys (dict_setitem d k v) =
     (if k \<in> set (dict_keys d) then dict_keys d else dict_keys d @ [k])"
  by (induction d) (force simp: dict_keys_def)+

lemma keys_setitem: "set (dict_keys (dict_setitem d k v)) = insert k (set (dict_keys d))"
  by (auto simp: dict_keys_setitem)

lemma map_of_setitem: "map_of (dict_setitem d k v) = (map_of d)(k \<mapsto> v)"
  by (induction d) (auto simp: fun_eq_iff)

lemma map_of_dict_update: "map_of (dict_update d e) = map_of d ++ map_of (rev e)"
proof (induction e arbitrary: d)
  case Nil
  show ?case by simp
next
  case (Cons p e)
  obtain k v where p: "p = (k, v)" by (cases p)
  show ?case
    by (simp add: p Cons.IH map_of_setitem fun_eq_iff map_add_def split: option.splits)
qed

lemma keys_dict_update: "set (dict_keys (dict_update d e)) = set (dict_keys d) \<union> set (dict_keys e)"
proof (induction e arbitrary: d)
  case Nil
  show ?case by (simp add: dict_keys_def)
next
  case (Cons p e)
  obtain k v where p: "p = (k, v)" by (cases p)
  have "set (dict_keys (p # e)) = insert k (set (dict_keys e))"
    by (simp add: p dict_keys_def)
  then show ?case
    by (simp add: p Cons.IH keys_setitem)
qed

lemma remove_expected_Inr:
  "remove_expected names R w = Inr R' \<longleftrightarrow> distinct names \<and> set names \<subseteq> R \<and> R' = R - set names"
proof (induction names arbitrary: R)
  case Nil
  show ?case by auto
next
  case (Cons n names)
  show ?case
  proof (cases "n \<in> R")
    case True
    then show ?thesis using Cons.IH [of "R - {n}"] by auto
  next
    case False
    then show ?thesis by simp
  qed
qed

lemma remove_expected_Inl:
  "remove_expected names R w = Inl e \<Longrightarrow>
     \<exists>pre n post. names = pre @ n # post \<and> distinct pre \<and> set pre \<subseteq> R \<and> (n \<notin> R \<or> n \<in> set pre)
        \<and> e = MissingDefaultParameter n (fn_name w)"
proof (induction names arbitrary: R)
  case Nil
  then show ?case by simp
next
  case (Cons m names)
  show ?case
  proof (cases "m \<in> R")
    case False
    with Cons.prems have "e = MissingDefaultParameter m (fn_name w)" by simp
    then have "m # names = [] @ m # names \<and> distinct ([]::string list) \<and> set [] \<subseteq> R
        \<and> (m \<notin> R \<or> m \<in> set []) \<and> e = MissingDefaultParameter m (fn_name w)"
      using False by simp
    then show ?thesis by blast
  next
    case True
    with Cons.prems have "remove_expected names (R - {m}) w = Inl e" by simp
    from Cons.IH [OF this] obtain pre n post where
      h: "names = pre @ n # post" "distinct pre" "set pre \<subseteq> R - {m}"
         "n \<notin> R - {m} \<or> n \<in> set pre" "e = MissingDefaultParameter n (fn_name w)"
      by blast
    have "m # names = (m # pre) @ n # post \<and> distinct (m # pre) \<and> set (m # pre) \<subseteq> R
        \<and> (n \<notin> R \<or> n \<in> set (m # pre)) \<and> e = MissingDefaultParameter n (fn_name w)"
      using h True by auto
    then show ?thesis by blast
  qed
qed

lemma remove_expected_missing:
  assumes "distinct names" and "\<not> set names \<subseteq> R"
  shows "\<exists>pre n post. names = pre @ n # post \<and> set pre \<subseteq> R \<and> n \<notin> R
           \<and> remove_expected names R w = Inl (MissingDefaultParameter n (fn_name w))"
proof -
  have "\<not> (\<exists>R'. remove_expected names R w = Inr R')"
    using assms by (simp add: remove_expected_Inr)
  then obtain e where e: "remove_expected names R w = Inl e"
    by (cases "remove_expected names R w") auto
  from remove_expected_Inl [OF e] obtain pre n post where
    h: "names = pre @ n # post" "set pre \<subseteq> R" "n \<notin> R \<or> n \<in> set pre"
       "e = MissingDefaultParameter n (fn_name w)"
    by blast
  from assms(1) h(1) have "n \<notin> set pre" by auto
  with h e show ?thesis by blast
qed

lemma store_set_cells [simp]: "cells (store_set a d s) = (cells s)(a := d)"
  by (simp add: store_set_def)

lemma store_set_next [simp]: "next_addr (store_set a d s) = next_addr s"
  by (simp add: store_set_def)

lemma positional_loop_frame:
  "positional_loop w en dk ps s = (r, s') \<Longrightarrow>
     next_addr s' = next_addr s \<and> (\<forall>a. a \<noteq> dk \<longrightarrow> cells s' a = cells s a)"
proof (induction ps arbitrary: s)
  case Nil
  then show ?case by simp
next
  case (Cons p ps)
  obtain i arg where p: "p = (i, arg)" by (cases p)
  show ?case
  proof (cases "length en \<le> i \<or> dict_contains (cells s dk) (en ! i)")
    case True
    with Cons.prems show ?thesis by (auto simp: p split: if_splits)
  next
    case False
    with Cons.prems have
      "positional_loop w en dk ps (store_set dk (dict_setitem (cells s dk) (en ! i) arg) s) = (r, s')"
      by (simp add: p)
    from Cons.IH [OF this] show ?thesis by simp
  qed
qed

lemma positional_loop_ok:
  assumes "distinct en" and "n + length args \<le> length en"
    and "\<forall>j<length args. \<not> dict_contains (cells s dk) (en ! (n + j))"
  shows "\<exists>s'. positional_loop w en dk (enumerate n args) s = (None, s')
     \<and> cells s' dk = dict_update (cells s dk) (zip (drop n en) args)"
  using assms
proof (induction args arbitrary: n s)
  case Nil
  then show ?case by simp
next
  case (Cons a args)
  let ?s = "store_set dk (dict_setitem (cells s dk) (en ! n) a) s"
  have n: "n < length en" using Cons.prems(2) by simp
  have free: "\<not> dict_contains (cells s dk) (en ! n)"
    using Cons.prems(3) [rule_format, of 0] by simp
  have later: "\<forall>j<length args. \<not> dict_contains (cells ?s dk) (en ! (Suc n + j))"
  proof (intro allI impI)
    fix j assume j: "j < length args"
    have "\<not> dict_contains (cells s dk) (en ! (n + Suc j))"
      using Cons.prems(3) [rule_format, of "Suc j"] j by simp
    moreover have "en ! (Suc n + j) \<noteq> en ! n"
      using Cons.prems(1,2) j by (simp add: nth_eq_iff_index_eq)
    ultimately show "\<not> dict_contains (cells ?s dk) (en ! (Suc n + j))"
      by (simp add: dict_contains_def keys_setitem)
  qed
  have "Suc n + length args \<le> length en" using Cons.prems(2) by simp
  from Cons.IH [OF Cons.prems(1) this later] obtain s' where
    s': "positional_loop w en dk (enumerate (Suc n) args) ?s = (None, s')"
        "cells s' dk = dict_update (cells ?s dk) (zip (drop (Suc n) en) args)"
    by blast
  have "drop n en = en ! n # drop (Suc n) en"
    using n by (simp add: Cons_nth_drop_Suc)
  then show ?case using s' n free by simp
qed

lemma positional_loop_collision:
  assumes "distinct en" and "n + length args \<le> length en"
    and "\<exists>j<length args. dict_contains (cells s dk) (en ! (n + j))"
  shows "\<exists>x s'. positional_loop w en dk (enumerate n args) s =
            (Some (UnexpectedParameters (Positional_Also_Keyword x) (fn_name w)), s')"
  using assms
proof (induction args arbitrary: n s)
  case Nil
  then show ?case by simp
next
  case (Cons a args)
  let ?s = "store_set dk (dict_setitem (cells s dk) (en ! n) a) s"
  have n: "n < length en" using Cons.prems(2) by simp
  show ?case
  proof (cases "dict_contains (cells s dk) (en ! n)")
    case True
    then show ?thesis using n by simp
  next
    case False
    from Cons.prems(3) obtain j where j: "j < Suc (length args)"
      "dict_contains (cells s dk) (en ! (n + j))" by auto
    with False obtain j' where j': "j = Suc j'" by (cases j) auto
    have "\<exists>j<length args. dict_contains (cells ?s dk) (en ! (Suc n + j))"
      using j j' by (auto simp: dict_contains_def keys_setitem intro!: exI [of _ j'])
    moreover have "Suc n + length args \<le> length en" using Cons.prems(2) by simp
    ultimately show ?thesis
      using Cons.IH [OF Cons.prems(1), of "Suc n" ?s] False n by simp
  qed
qed

section \<open>One application of the parameterised decorator\<close>

lemma partial_fn_frame:
  assumes "partial_fn w t dp en args kw s0 = (r, s')"
  shows "next_addr s0 \<le> next_addr s' \<and> (\<forall>a<next_addr s0. cells s' a = cells s0 a)"
proof (cases "length en < length args \<or>
    filter (\<lambda>name. \<not> dict_contains (cells (snd (alloc kw s0)) dp) name)
      (dict_keys (cells (snd (alloc kw s0)) (next_addr s0))) \<noteq> []")
  case True
  with assms have "s' = snd (alloc kw s0)"
    by (auto simp: partial_fn_def alloc_def Let_def split: if_splits)
  then show ?thesis by (simp add: alloc_def)
next
  case False
  let ?s2 = "snd (alloc (cells (snd (alloc kw s0)) dp) (snd (alloc kw s0)))"
  obtain e s3 where loop:
    "positional_loop w en (next_addr s0) (enumerate 0 args) ?s2 = (e, s3)"
    by (cases "positional_loop w en (next_addr s0) (enumerate 0 args) ?s2")
  have fr: "next_addr s3 = next_addr ?s2"
    "\<forall>a. a \<noteq> next_addr s0 \<longrightarrow> cells s3 a = cells ?s2 a"
    using positional_loop_frame [OF loop] by auto
  have "s' = s3 \<or> s' = store_set (Suc (next_addr s0))
      (dict_update (cells s3 (Suc (next_addr s0))) (cells s3 (next_addr s0))) s3"
    using assms False loop
    by (auto simp: partial_fn_def alloc_def Let_def split: if_splits option.splits)
  then show ?thesis
    using fr by (auto simp: alloc_def)
qed

lemma partial_fn_too_many:
  assumes "length en < length args"
  shows "partial_fn w t dp en args kw s0 =
     (Inl (UnexpectedParameters (Too_Many_Positional (length en) (length args)) (fn_name w)),
      snd (alloc kw s0))"
  using assms by (simp add: partial_fn_def alloc_def)

lemma partial_fn_unknown:
  assumes "length args \<le> length en" and "dp < next_addr s0"
    and "filter (\<lambda>name. \<not> dict_contains (cells s0 dp) name) (dict_keys kw) \<noteq> []"
  shows "partial_fn w t dp en args kw s0 =
     (Inl (UnexpectedParameters
        (Unknown_Names (filter (\<lambda>name. \<not> dict_contains (cells s0 dp) name) (dict_keys kw)))
        (fn_name w)),
      snd (alloc kw s0))"
  using assms by (simp add: partial_fn_def alloc_def)

lemma partial_fn_collision:
  assumes "length args \<le> length en" and "dp < next_addr s0" and "distinct en"
    and "filter (\<lambda>name. \<not> dict_contains (cells s0 dp) name) (dict_keys kw) = []"
    and "\<exists>j<length args. dict_contains kw (en ! j)"
  shows "\<exists>x s'. partial_fn w t dp en args kw s0 =
     (Inl (UnexpectedParameters (Positional_Also_Keyword x) (fn_name w)), s')"
proof -
  let ?s2 = "snd (alloc (cells (snd (alloc kw s0)) dp) (snd (alloc kw s0)))"
  have "\<exists>j<length args. dict_contains (cells ?s2 (next_addr s0)) (en ! (0 + j))"
    using assms(5) by (simp add: alloc_def)
  from positional_loop_collision [OF assms(3) _ this, of w] assms(1)
  obtain x s3 where
    "positional_loop w en (next_addr s0) (enumerate 0 args) ?s2 =
       (Some (UnexpectedParameters (Positional_Also_Keyword x) (fn_name w)), s3)"
    by auto
  then show ?thesis
    using assms(1,2,4) by (simp add: partial_fn_def alloc_def)
qed

lemma partial_fn_ok:
  assumes "length args \<le> length en" and "dp < next_addr s0" and "distinct en"
    and "filter (\<lambda>name. \<not> dict_contains (cells s0 dp) name) (dict_keys kw) = []"
    and "\<forall>j<length args. \<not> dict_contains kw (en ! j)"
  shows "\<exists>s'. partial_fn w t dp en args kw s0 =
            (Inr (wrapper_params_fn w t (Suc (next_addr s0))), s')
     \<and> cells s' (Suc (next_addr s0)) =
           dict_update (cells s0 dp) (dict_update kw (zip en args))"
proof -
  let ?s2 = "snd (alloc (cells (snd (alloc kw s0)) dp) (snd (alloc kw s0)))"
  have "\<forall>j<length args. \<not> dict_contains (cells ?s2 (next_addr s0)) (en ! (0 + j))"
    using assms(5) by (simp add: alloc_def)
  from positional_loop_ok [OF assms(3) _ this, of w] assms(1)
  obtain s3 where loop:
    "positional_loop w en (next_addr s0) (enumerate 0 args) ?s2 = (None, s3)"
    "cells s3 (next_addr s0) = dict_update (cells ?s2 (next_addr s0)) (zip (drop 0 en) args)"
    by auto
  have "cells s3 (Suc (next_addr s0)) = cells ?s2 (Suc (next_addr s0))"
    using positional_loop_frame [OF loop(1)] by simp
  then have cp: "cells s3 (Suc (next_addr s0)) = cells s0 dp"
    using assms(2) by (simp add: alloc_def)
  have dk: "cells s3 (next_addr s0) = dict_update kw (zip en args)"
    using loop(2) by (simp add: alloc_def)
  show ?thesis
    using assms(1,2,4) loop(1) cp dk by (simp add: partial_fn_def alloc_def)
qed

section \<open>Building the decorator and constructing the wrapper\<close>

lemma decorator_Some:
  "decorator (Some w) t defaults s0 =
     (case remove_expected (expected_names_of w) (set (dict_keys defaults)) w of
        Inl e \<Rightarrow> (Inl e, snd (alloc defaults s0))
      | Inr R \<Rightarrow>
          if R \<noteq> {}
          then (Inl (UnexpectedDefaultParameters R (fn_name w)), snd (alloc defaults s0))
          else if expected_names_of w \<noteq> []
          then (Inr (User_Decorator
                  (wraps w (def_function ''_partial'' ''decorator.<locals>._partial''
                     (Parameterized (partial_fn w t (next_addr s0) (expected_names_of w)))))),
                snd (alloc defaults s0))
          else (Inr (User_Decorator
                  (wraps w (def_function ''_wrapper'' ''decorator.<locals>._wrapper''
                     (Direct (wrapper_fn w t))))),
                snd (alloc defaults s0)))"
  by (simp add: decorator_def expected_names_of_def alloc_def Let_def split: sum.splits)

lemma decorator_built:
  assumes "decorator (Some w) t defaults s0 = (Inr b, s1)"
  shows "distinct (expected_names_of w) \<and> set (expected_names_of w) = set (dict_keys defaults)
     \<and> s1 = snd (alloc defaults s0)
     \<and> b = User_Decorator
         (wraps w
            (if expected_names_of w \<noteq> []
             then def_function ''_partial'' ''decorator.<locals>._partial''
                    (Parameterized (partial_fn w t (next_addr s0) (expected_names_of w)))
             else def_function ''_wrapper'' ''decorator.<locals>._wrapper''
                    (Direct (wrapper_fn w t))))"
proof (cases "remove_expected (expected_names_of w) (set (dict_keys defaults)) w")
  case (Inl e)
  with assms show ?thesis by (simp add: decorator_Some)
next
  case (Inr R)
  then have R: "distinct (expected_names_of w)"
    "set (expected_names_of w) \<subseteq> set (dict_keys defaults)"
    "R = set (dict_keys defaults) - set (expected_names_of w)"
    by (simp_all add: remove_expected_Inr)
  from assms Inr have "R = {}"
    by (auto simp: decorator_Some split: if_splits)
  with R have "set (expected_names_of w) = set (dict_keys defaults)" by auto
  with assms Inr R(1) \<open>R = {}\<close> show ?thesis
    by (auto simp: decorator_Some split: if_splits)
qed

lemma decorator_matching:
  assumes "distinct (expected_names_of w)"
    and "set (expected_names_of w) = set (dict_keys defaults)"
  shows "decorator (Some w) t defaults s0 =
     (Inr (User_Decorator
         (wraps w
            (if expected_names_of w \<noteq> []
             then def_function ''_partial'' ''decorator.<locals>._partial''
                    (Parameterized (partial_fn w t (next_addr s0) (expected_names_of w)))
             else def_function ''_wrapper'' ''decorator.<locals>._wrapper''
                    (Direct (wrapper_fn w t))))),
      snd (alloc defaults s0))"
proof -
  have "remove_expected (expected_names_of w) (set (dict_keys defaults)) w = Inr {}"
    using assms by (simp add: remove_expected_Inr)
  then show ?thesis by (simp add: decorator_Some)
qed

lemma update_adapter_loop_fields:
  "fw_wrapped (update_adapter_loop as c t) = fw_wrapped c
   \<and> fw_wrapper (update_adapter_loop as c t) = fw_wrapper c
   \<and> fw_params (update_adapter_loop as c t) = fw_params c"
  by (induction as arbitrary: c) (auto simp: setattr_def split: option.splits)


lemma update_adapter_params:
  "update_adapter (c\<lparr>fw_params := p\<rparr>) t = (update_adapter c t)\<lparr>fw_params := p\<rparr>"
proof -
  have sw: "setattr (c\<lparr>fw_params := p\<rparr>) a v = (setattr c a v)\<lparr>fw_params := p\<rparr>" for c a v
    by (simp add: setattr_def)
  have "update_adapter_loop as (c\<lparr>fw_params := p\<rparr>) t = (update_adapter_loop as c t)\<lparr>fw_params := p\<rparr>"
    for as
    by (induction as arbitrary: c) (simp_all add: sw split: option.splits)
  then show ?thesis by (simp add: update_adapter_def)
qed

lemma wrapper_params_fn_eq:
  "wrapper_params_fn w t cp func = (wrapper_fn w t func)\<lparr>fw_params := Some cp\<rparr>"
proof -
  have "FunctionWrapper func w (Some cp) = (FunctionWrapper func w None)\<lparr>fw_params := Some cp\<rparr>"
    by (simp add: FunctionWrapper_def)
  then show ?thesis
    by (simp add: wrapper_params_fn_def wrapper_fn_def update_adapter_params Let_def
        split: option.splits)
qed

lemma wrapper_fn_params: "fw_params (wrapper_fn w t func) = None"
  by (simp add: wrapper_fn_def FunctionWrapper_def update_adapter_def update_adapter_loop_fields
      Let_def split: option.splits)

lemma resolve_wrapper_params_fn:
  "resolve s (wrapper_params_fn w t cp func) = (wrapper_fn w t func, Some (cells s cp))"
proof -
  have "(wrapper_fn w t func)\<lparr>fw_params := None\<rparr> = wrapper_fn w t func"
    using wrapper_fn_params [of w t func] by (cases "wrapper_fn w t func") simp
  then show ?thesis
    by (simp add: resolve_def wrapper_params_fn_eq)
qed

section \<open>The outcomes of an application\<close>

lemma no_unknown_iff:
  "filter (\<lambda>name. \<not> dict_contains d name) (dict_keys kw) = []
     \<longleftrightarrow> set (dict_keys kw) \<subseteq> set (dict_keys d)"
  by (auto simp: filter_empty_conv dict_contains_def)

lemma partial_fn_cases:
  assumes "dp < next_addr s" and "distinct en"
  shows "(length en < length args \<or> \<not> set (dict_keys kw) \<subseteq> set (dict_keys (cells s dp))
            \<or> (\<exists>j<length args. j < length en \<and> en ! j \<in> set (dict_keys kw)))
          \<and> (\<exists>detail s'. partial_fn w t dp en args kw s =
                (Inl (UnexpectedParameters detail (fn_name w)), s'))
       \<or> length args \<le> length en \<and> set (dict_keys kw) \<subseteq> set (dict_keys (cells s dp))
          \<and> (\<forall>j<length args. en ! j \<notin> set (dict_keys kw))
          \<and> (\<exists>s'. partial_fn w t dp en args kw s =
                 (Inr (wrapper_params_fn w t (Suc (next_addr s))), s')
               \<and> cells s' (Suc (next_addr s)) =
                   dict_update (cells s dp) (dict_update kw (zip en args)))"
proof (cases "length en < length args")
  case True
  then show ?thesis using partial_fn_too_many [OF True, of w t dp kw s] by auto
next
  case len: False
  then have le: "length args \<le> length en" by simp
  show ?thesis
  proof (cases "set (dict_keys kw) \<subseteq> set (dict_keys (cells s dp))")
    case False
    then have "filter (\<lambda>name. \<not> dict_contains (cells s dp) name) (dict_keys kw) \<noteq> []"
      by (simp add: no_unknown_iff)
    from partial_fn_unknown [OF le assms(1) this, of w t] False show ?thesis by auto
  next
    case sub: True
    then have nu: "filter (\<lambda>name. \<not> dict_contains (cells s dp) name) (dict_keys kw) = []"
      by (simp add: no_unknown_iff)
    show ?thesis
    proof (cases "\<exists>j<length args. dict_contains kw (en ! j)")
      case True
      from partial_fn_collision [OF le assms(1,2) nu True, of w t]
      have "\<exists>detail s'. partial_fn w t dp en args kw s =
          (Inl (UnexpectedParameters detail (fn_name w)), s')"
        by blast
      moreover have "\<exists>j<length args. j < length en \<and> en ! j \<in> set (dict_keys kw)"
        using True le by (auto simp: dict_contains_def)
      ultimately show ?thesis by blast
    next
      case False
      then have nc: "\<forall>j<length args. \<not> dict_contains kw (en ! j)" by simp
      from partial_fn_ok [OF le assms(1,2) nu nc, of w t] le sub nc
      show ?thesis by (auto simp: dict_contains_def)
    qed
  qed
qed

lemma partial_fn_Inr:
  assumes "dp < next_addr s" and "distinct en"
    and "partial_fn w t dp en args kw s = (Inr g, s')"
  shows "g = wrapper_params_fn w t (Suc (next_addr s))
     \<and> cells s' (Suc (next_addr s)) = dict_update (cells s dp) (dict_update kw (zip en args))
     \<and> length args \<le> length en
     \<and> set (dict_keys kw) \<subseteq> set (dict_keys (cells s dp))
     \<and> (\<forall>j<length args. en ! j \<notin> set (dict_keys kw))"
  using partial_fn_cases [OF assms(1,2), of args kw w t] assms(3) by auto

lemma partial_fn_Inl:
  assumes "dp < next_addr s" and "distinct en"
    and "partial_fn w t dp en args kw s = (Inl e, s')"
  shows "(\<exists>detail. e = UnexpectedParameters detail (fn_name w))
     \<and> (length en < length args \<or> \<not> set (dict_keys kw) \<subseteq> set (dict_keys (cells s dp))
            \<or> (\<exists>j<length args. j < length en \<and> en ! j \<in> set (dict_keys kw)))"
  using partial_fn_cases [OF assms(1,2), of args kw w t] assms(3) by auto

lemma positional_loop_indep:
  assumes "cells s dk = cells s' dk'"
  shows "fst (positional_loop w en dk ps s) = fst (positional_loop w en dk' ps s')
     \<and> cells (snd (positional_loop w en dk ps s)) dk =
         cells (snd (positional_loop w en dk' ps s')) dk'"
  using assms
proof (induction ps arbitrary: s s')
  case Nil
  then show ?case by simp
next
  case (Cons p ps)
  obtain i arg where p: "p = (i, arg)" by (cases p)
  let ?t = "store_set dk (dict_setitem (cells s dk) (en ! i) arg) s"
  let ?t' = "store_set dk' (dict_setitem (cells s' dk') (en ! i) arg) s'"
  have "cells ?t dk = cells ?t' dk'" using Cons.prems by simp
  from Cons.IH [OF this] show ?case using Cons.prems by (simp add: p)
qed

lemma partial_fn_view:
  assumes "dp < next_addr s"
  shows "application_view (partial_fn w t dp en args kw s) =
     (if length en < length args
      then Inl (UnexpectedParameters (Too_Many_Positional (length en) (length args)) (fn_name w))
      else if filter (\<lambda>name. \<not> dict_contains (cells s dp) name) (dict_keys kw) \<noteq> []
      then Inl (UnexpectedParameters
             (Unknown_Names (filter (\<lambda>name. \<not> dict_contains (cells s dp) name) (dict_keys kw)))
             (fn_name w))
      else (case positional_loop w en 0 (enumerate 0 args) \<lparr>next_addr = 1, cells = (\<lambda>_. kw)\<rparr> of
              (Some e, _) \<Rightarrow> Inl e
            | (None, s3) \<Rightarrow>
                Inr (\<lambda>func. (wrapper_fn w t func, Some (dict_update (cells s dp) (cells s3 0))))))"
proof -
  let ?dk = "next_addr s"
  let ?cp = "Suc (next_addr s)"
  let ?s2 = "snd (alloc (cells (snd (alloc kw s)) dp) (snd (alloc kw s)))"
  let ?c = "\<lparr>next_addr = 1, cells = (\<lambda>_. kw)\<rparr> :: 'a store"
  obtain e s3 where loop: "positional_loop w en ?dk (enumerate 0 args) ?s2 = (e, s3)"
    by (cases "positional_loop w en ?dk (enumerate 0 args) ?s2")
  obtain e' s3' where loop': "positional_loop w en 0 (enumerate 0 args) ?c = (e', s3')"
    by (cases "positional_loop w en 0 (enumerate 0 args) ?c")
  have "cells ?s2 ?dk = cells ?c 0" by (simp add: alloc_def)
  from positional_loop_indep [OF this, of w en "enumerate 0 args"] loop loop'
  have same: "e = e'" "cells s3 ?dk = cells s3' 0" by simp_all
  have "cells s3 ?cp = cells ?s2 ?cp"
    using positional_loop_frame [OF loop] by simp
  then have cp: "cells s3 ?cp = cells s dp"
    using assms by (simp add: alloc_def)
  show ?thesis
    using assms loop loop' same cp
    by (cases e')
       (simp_all add: partial_fn_def application_view_def alloc_def resolve_wrapper_params_fn)
qed

lemma partial_fn_indep:
  assumes "dp < next_addr s" and "dp' < next_addr s'" and "cells s dp = cells s' dp'"
  shows "application_view (partial_fn w t dp en args kw s) =
         application_view (partial_fn w t dp' en args kw s')"
  unfolding partial_fn_view [OF assms(1)] partial_fn_view [OF assms(2)] assms(3)
  by (rule refl)

lemma decorator_None:
  "decorator None target defaults s = (Inr (Deferred target defaults), snd (alloc defaults s))"
  by (simp add: decorator_def alloc_def)

lemma alloc_snd [simp]:
  "next_addr (snd (alloc d s)) = Suc (next_addr s)"
  "cells (snd (alloc d s)) (next_addr s) = d"
  by (simp_all add: alloc_def)

lemma built_parameterized:
  assumes "decorator (Some w) target defaults s0 = (Inr (User_Decorator f), s1)"
    and "fo_call f = Parameterized p"
  shows "p = partial_fn w target (next_addr s0) (expected_names_of w)
     \<and> distinct (expected_names_of w)
     \<and> set (expected_names_of w) = set (dict_keys defaults)
     \<and> expected_names_of w \<noteq> []
     \<and> s1 = snd (alloc defaults s0)"
proof -
  from decorator_built [OF assms(1)] have
    d: "distinct (expected_names_of w)"
    and e: "set (expected_names_of w) = set (dict_keys defaults)"
    and s1: "s1 = snd (alloc defaults s0)"
    and f: "f = wraps w
            (if expected_names_of w \<noteq> []
             then def_function ''_partial'' ''decorator.<locals>._partial''
                    (Parameterized (partial_fn w target (next_addr s0) (expected_names_of w)))
             else def_function ''_wrapper'' ''decorator.<locals>._wrapper''
                    (Direct (wrapper_fn w target)))"
    by simp_all
  have "expected_names_of w \<noteq> []"
    using f assms(2) by (auto simp: wraps_def def_function_def split: if_splits)
  moreover from this have "p = partial_fn w target (next_addr s0) (expected_names_of w)"
    using f assms(2) by (simp add: wraps_def def_function_def)
  ultimately show ?thesis using d e s1 by simp
qed

lemma built_direct:
  assumes "decorator (Some w) target defaults s0 = (Inr (User_Decorator f), s1)"
    and "fo_call f = Direct g"
  shows "g = wrapper_fn w target \<and> expected_names_of w = []"
proof -
  from decorator_built [OF assms(1)] have
    f: "f = wraps w
            (if expected_names_of w \<noteq> []
             then def_function ''_partial'' ''decorator.<locals>._partial''
                    (Parameterized (partial_fn w target (next_addr s0) (expected_names_of w)))
             else def_function ''_wrapper'' ''decorator.<locals>._wrapper''
                    (Direct (wrapper_fn w target)))"
    by simp
  show ?thesis
    using f assms(2) by (auto simp: wraps_def def_function_def split: if_splits)
qed

lemma apply_sequence_frame:
  "next_addr s \<le> next_addr (apply_sequence (partial_fn w t dp en) calls s)
   \<and> (\<forall>a<next_addr s. cells (apply_sequence (partial_fn w t dp en) calls s) a = cells s a)"
proof (induction calls arbitrary: s)
  case Nil
  show ?case by simp
next
  case (Cons c calls)
  obtain args kw where c: "c = (args, kw)" by (cases c)
  obtain r s' where r: "partial_fn w t dp en args kw s = (r, s')"
    by (cases "partial_fn w t dp en args kw s")
  from partial_fn_frame [OF r] Cons.IH [of s'] show ?case
    by (auto simp: c r)
qed

lemma distinct_keys_setitem:
  "distinct (dict_keys d) \<Longrightarrow> distinct (dict_keys (dict_setitem d k v))"
  by (simp add: dict_keys_setitem)

lemma map_of_dict_update_lookup:
  "map_of (dict_update d e) k =
     (case map_of (rev e) k of Some v \<Rightarrow> Some v | None \<Rightarrow> map_of d k)"
  by (simp add: map_of_dict_update map_add_def)

lemma map_of_rev_distinct:
  "distinct (map fst e) \<Longrightarrow> map_of (rev e) = map_of e"
proof (induction e)
  case Nil
  show ?case by simp
next
  case (Cons p e)
  obtain k v where p: "p = (k, v)" by (cases p)
  have "map_of e k = None"
    using Cons.prems by (simp add: p map_of_eq_None_iff)
  moreover have "map_of (rev e) = map_of e" using Cons by simp
  ultimately show ?case
    by (auto simp: p fun_eq_iff map_add_def split: option.splits)
qed

text \<open>What the merged dictionary holds under each key.\<close>

lemma merged_lookup:
  assumes "distinct en" and "length args \<le> length en"
    and "distinct (dict_keys kw)"
    and "\<forall>j<length args. en ! j \<notin> set (dict_keys kw)"
  shows "(\<forall>i<length args. map_of (dict_update d (dict_update kw (zip en args))) (en ! i)
            = Some (args ! i))
     \<and> (\<forall>k v. (k, v) \<in> set kw \<longrightarrow>
            map_of (dict_update d (dict_update kw (zip en args))) k = Some v)
     \<and> (\<forall>k. k \<notin> set (take (length args) en) \<and> k \<notin> set (dict_keys kw) \<longrightarrow>
            map_of (dict_update d (dict_update kw (zip en args))) k = map_of d k)"
proof -
  let ?pn = "take (length args) en"
  let ?z = "zip en args"
  have "take (length args) ?z = ?z" by simp
  then have z: "?z = zip ?pn args" by (simp add: take_zip)
  have dpn: "distinct ?pn" using assms(1) by simp
  have lpn: "length ?pn = length args" using assms(2) by simp
  have dz: "distinct (map fst ?z)"
    unfolding z using dpn lpn by simp
  have mz: "map_of (rev ?z) = map_of ?z" by (rule map_of_rev_distinct [OF dz])
  have inner: "map_of (dict_update kw ?z) = map_of kw ++ map_of ?z"
    by (simp add: map_of_dict_update mz)
  have dk: "distinct (map fst (dict_update kw ?z))"
  proof -
    have "distinct (dict_keys (dict_update kw' e))" if "distinct (dict_keys kw')"
      for kw' :: "'a dict" and e
      using that
    proof (induction e arbitrary: kw')
      case Nil
      then show ?case by simp
    next
      case (Cons p e)
      obtain k v where p: "p = (k, v)" by (cases p)
      show ?case using Cons.IH [OF distinct_keys_setitem [OF Cons.prems]] by (simp add: p)
    qed
    from this [OF assms(3)] show ?thesis by (simp add: dict_keys_def)
  qed
  have outer: "map_of (dict_update d (dict_update kw ?z)) = map_of d ++ (map_of kw ++ map_of ?z)"
    by (simp only: map_of_dict_update [of d "dict_update kw ?z"] map_of_rev_distinct [OF dk] inner)
  have pos: "map_of ?z (en ! i) = Some (args ! i)" if "i < length args" for i
  proof -
    have "map_of (zip ?pn args) (?pn ! i) = Some (args ! i)"
      by (rule map_of_zip_nth [OF lpn dpn that])
    then show ?thesis using that by (simp add: z [symmetric])
  qed
  have nz: "map_of ?z k = None" if "k \<notin> set ?pn" for k
    unfolding z using that lpn by (simp add: map_of_zip_is_None [OF lpn])
  have 1: "\<forall>i<length args. map_of (dict_update d (dict_update kw ?z)) (en ! i) = Some (args ! i)"
    by (simp add: outer pos)
  have 2: "\<forall>k v. (k, v) \<in> set kw \<longrightarrow> map_of (dict_update d (dict_update kw ?z)) k = Some v"
  proof (intro allI impI)
    fix k v assume kv: "(k, v) \<in> set kw"
    then have "k \<in> set (dict_keys kw)" by (force simp: dict_keys_def)
    have "k \<notin> set ?pn"
    proof
      assume "k \<in> set ?pn"
      then obtain j where "j < length ?pn" "?pn ! j = k"
        by (auto simp: in_set_conv_nth)
      then have "j < length args" "en ! j = k" by simp_all
      with assms(4) \<open>k \<in> set (dict_keys kw)\<close> show False by blast
    qed
    then have "map_of ?z k = None" by (rule nz)
    moreover have "map_of kw k = Some v"
      using assms(3) kv by (simp add: dict_keys_def)
    ultimately show "map_of (dict_update d (dict_update kw ?z)) k = Some v"
      by (simp add: outer map_add_def)
  qed
  have 3: "\<forall>k. k \<notin> set ?pn \<and> k \<notin> set (dict_keys kw) \<longrightarrow>
            map_of (dict_update d (dict_update kw ?z)) k = map_of d k"
  proof (intro allI impI, elim conjE)
    fix k assume "k \<notin> set ?pn" and nk: "k \<notin> set (dict_keys kw)"
    then have "map_of ?z k = None" by (simp add: nz)
    moreover have "map_of kw k = None"
      using nk by (simp add: map_of_eq_None_iff dict_keys_def)
    ultimately show "map_of (dict_update d (dict_update kw ?z)) k = map_of d k"
      by (simp add: outer map_add_def)
  qed
  from 1 2 3 show ?thesis by (intro conjI)
qed





section \<open>The properties of the specification\<close>

text \<open>
  C10. A wrapper behaviour that declares fewer than four parameters, with an empty
  default set, builds without any error: the slice past the four fixed names is empty,
  and the decorator returned is the direct one-argument shape. The fixed prefix is not
  checked.
\<close>

theorem short_arglist_builds_direct:
  assumes "length (fn_args w) < 4"
  shows "expected_names_of w = []
     \<and> decorator (Some w) target [] s =
         (Inr (User_Decorator
            (wraps w (def_function ''_wrapper'' ''decorator.<locals>._wrapper''
               (Direct (wrapper_fn w target))))),
          snd (alloc [] s))"
proof -
  have e: "expected_names_of w = []"
    using assms by (simp add: expected_names_of_def WRAPPER_ARGLIST_def)
  then show ?thesis
    using decorator_matching [of w "[]" target s] by (simp add: dict_keys_def)
qed

theorem short_arglist_builds_direct_witness:
  "length (fn_args \<lparr>fn_module = ''m'', fn_name = ''log'', fn_qualname = ''log'',
                    fn_args = [''wrapped'', ''instance'']\<rparr>) < 4
   \<and> expected_names_of \<lparr>fn_module = ''m'', fn_name = ''log'', fn_qualname = ''log'',
                    fn_args = [''wrapped'', ''instance'']\<rparr> = []
   \<and> fst (decorator (Some \<lparr>fn_module = ''m'', fn_name = ''log'', fn_qualname = ''log'',
                    fn_args = [''wrapped'', ''instance'']\<rparr>) None ([] :: int dict) empty_store) =
         Inr (User_Decorator
            (wraps \<lparr>fn_module = ''m'', fn_name = ''log'', fn_qualname = ''log'',
                    fn_args = [''wrapped'', ''instance'']\<rparr>
               (def_function ''_wrapper'' ''decorator.<locals>._wrapper''
                 (Direct (wrapper_fn \<lparr>fn_module = ''m'', fn_name = ''log'', fn_qualname = ''log'',
                    fn_args = [''wrapped'', ''instance'']\<rparr> None)))))"
  using short_arglist_builds_direct
    [of "\<lparr>fn_module = ''m'', fn_name = ''log'', fn_qualname = ''log'',
          fn_args = [''wrapped'', ''instance'']\<rparr>" None "empty_store :: int store"]
  by simp

text \<open>
  C3. When the wrapper behaviour declares an extra parameter (a name beyond the first
  four) that the default set does not contain, building the decorator fails with
  \<open>MissingDefaultParameter\<close>, naming that parameter and the behaviour. The names are
  walked in order, each matched one leaving the working copy of the default keys: the
  names before the reported one were all found, and the reported one is the first that
  is absent. The declared names of a Python function are distinct.
\<close>

theorem missing_default_parameter:
  assumes "distinct (fn_args w)"
    and "\<exists>name \<in> set (expected_names_of w). name \<notin> set (dict_keys defaults)"
  shows "\<exists>pre name post.
      expected_names_of w = pre @ name # post
      \<and> set pre \<subseteq> set (dict_keys defaults)
      \<and> name \<notin> set (dict_keys defaults)
      \<and> remove_expected pre (set (dict_keys defaults)) w = Inr (set (dict_keys defaults) - set pre)
      \<and> decorator (Some w) target defaults s =
           (Inl (MissingDefaultParameter name (fn_name w)), snd (alloc defaults s))"
proof -
  have d: "distinct (expected_names_of w)"
    using assms(1) by (simp add: expected_names_of_def)
  have "\<not> set (expected_names_of w) \<subseteq> set (dict_keys defaults)"
    using assms(2) by auto
  from remove_expected_missing [OF d this, of w] obtain pre name post where
    h: "expected_names_of w = pre @ name # post" "set pre \<subseteq> set (dict_keys defaults)"
       "name \<notin> set (dict_keys defaults)"
       "remove_expected (expected_names_of w) (set (dict_keys defaults)) w =
          Inl (MissingDefaultParameter name (fn_name w))"
    by blast
  have "distinct pre" using d h(1) by simp
  then have "remove_expected pre (set (dict_keys defaults)) w =
      Inr (set (dict_keys defaults) - set pre)"
    using h(2) by (simp add: remove_expected_Inr)
  moreover have "decorator (Some w) target defaults s =
      (Inl (MissingDefaultParameter name (fn_name w)), snd (alloc defaults s))"
    using h(4) by (simp add: decorator_Some)
  ultimately show ?thesis using h(1,2,3) by blast
qed

theorem missing_default_parameter_witness:
  "distinct (fn_args \<lparr>fn_module = ''m'', fn_name = ''retry'', fn_qualname = ''retry'',
       fn_args = [''wrapped'', ''instance'', ''args'', ''kwargs'', ''a'', ''b'']\<rparr>)
   \<and> (\<exists>name \<in> set (expected_names_of \<lparr>fn_module = ''m'', fn_name = ''retry'', fn_qualname = ''retry'',
       fn_args = [''wrapped'', ''instance'', ''args'', ''kwargs'', ''a'', ''b'']\<rparr>).
         name \<notin> set (dict_keys [(''a'', 1::int)]))
   \<and> fst (decorator (Some \<lparr>fn_module = ''m'', fn_name = ''retry'', fn_qualname = ''retry'',
       fn_args = [''wrapped'', ''instance'', ''args'', ''kwargs'', ''a'', ''b'']\<rparr>)
         None [(''a'', 1::int)] empty_store) = Inl (MissingDefaultParameter ''b'' ''retry'')"
proof -
  let ?w = "\<lparr>fn_module = ''m'', fn_name = ''retry'', fn_qualname = ''retry'',
       fn_args = [''wrapped'', ''instance'', ''args'', ''kwargs'', ''a'', ''b'']\<rparr>"
  have d: "distinct (fn_args ?w)" by simp
  have e: "expected_names_of ?w = [''a'', ''b'']"
    by (simp add: expected_names_of_def WRAPPER_ARGLIST_def)
  have m: "\<exists>name \<in> set (expected_names_of ?w). name \<notin> set (dict_keys [(''a'', 1::int)])"
    by (simp add: e dict_keys_def)
  from missing_default_parameter [OF d m, of None empty_store]
  obtain pre name post where
    h: "expected_names_of ?w = pre @ name # post"
       "set pre \<subseteq> set (dict_keys [(''a'', 1::int)])"
       "name \<notin> set (dict_keys [(''a'', 1::int)])"
       "decorator (Some ?w) None [(''a'', 1::int)] empty_store =
           (Inl (MissingDefaultParameter name (fn_name ?w)), snd (alloc [(''a'', 1::int)] empty_store))"
    by blast
  have "name \<in> set (expected_names_of ?w)" using h(1) by simp
  then have "name = ''b''" using h(3) by (auto simp: e dict_keys_def)
  then show ?thesis using d m h(4) by simp
qed

text \<open>
  C4. When every extra parameter name is among the defaults and the defaults hold a key
  that is not an extra parameter name, building the decorator fails with
  \<open>UnexpectedDefaultParameters\<close>, naming the surplus keys and the behaviour; the walk
  over the expected names has matched them all before.
\<close>

theorem unexpected_default_parameters:
  assumes "distinct (fn_args w)"
    and "set (expected_names_of w) \<subseteq> set (dict_keys defaults)"
    and "\<exists>key \<in> set (dict_keys defaults). key \<notin> set (expected_names_of w)"
  shows "decorator (Some w) target defaults s =
     (Inl (UnexpectedDefaultParameters
             (set (dict_keys defaults) - set (expected_names_of w)) (fn_name w)),
      snd (alloc defaults s))
    \<and> remove_expected (expected_names_of w) (set (dict_keys defaults)) w =
        Inr (set (dict_keys defaults) - set (expected_names_of w))"
proof -
  have d: "distinct (expected_names_of w)"
    using assms(1) by (simp add: expected_names_of_def)
  have r: "remove_expected (expected_names_of w) (set (dict_keys defaults)) w =
      Inr (set (dict_keys defaults) - set (expected_names_of w))"
    using d assms(2) by (simp add: remove_expected_Inr)
  have "set (dict_keys defaults) - set (expected_names_of w) \<noteq> {}"
    using assms(3) by auto
  then show ?thesis using r by (simp add: decorator_Some)
qed

theorem unexpected_default_parameters_witness:
  "distinct (fn_args \<lparr>fn_module = ''m'', fn_name = ''retry'', fn_qualname = ''retry'',
       fn_args = [''wrapped'', ''instance'', ''args'', ''kwargs'', ''a'']\<rparr>)
   \<and> set (expected_names_of \<lparr>fn_module = ''m'', fn_name = ''retry'', fn_qualname = ''retry'',
       fn_args = [''wrapped'', ''instance'', ''args'', ''kwargs'', ''a'']\<rparr>)
        \<subseteq> set (dict_keys [(''a'', 1::int), (''c'', 5)])
   \<and> (\<exists>key \<in> set (dict_keys [(''a'', 1::int), (''c'', 5)]).
         key \<notin> set (expected_names_of \<lparr>fn_module = ''m'', fn_name = ''retry'', fn_qualname = ''retry'',
       fn_args = [''wrapped'', ''instance'', ''args'', ''kwargs'', ''a'']\<rparr>))
   \<and> fst (decorator (Some \<lparr>fn_module = ''m'', fn_name = ''retry'', fn_qualname = ''retry'',
       fn_args = [''wrapped'', ''instance'', ''args'', ''kwargs'', ''a'']\<rparr>)
         None [(''a'', 1::int), (''c'', 5)] empty_store) =
       Inl (UnexpectedDefaultParameters {''c''} ''retry'')"
proof -
  let ?w = "\<lparr>fn_module = ''m'', fn_name = ''retry'', fn_qualname = ''retry'',
       fn_args = [''wrapped'', ''instance'', ''args'', ''kwargs'', ''a'']\<rparr>"
  have d: "distinct (fn_args ?w)" by simp
  have e: "expected_names_of ?w = [''a'']"
    by (simp add: expected_names_of_def WRAPPER_ARGLIST_def)
  have k: "dict_keys [(''a'', 1::int), (''c'', 5)] = [''a'', ''c'']"
    by (simp add: dict_keys_def)
  have sub: "set (expected_names_of ?w) \<subseteq> set (dict_keys [(''a'', 1::int), (''c'', 5)])"
    by (simp add: e k)
  have sur: "\<exists>key \<in> set (dict_keys [(''a'', 1::int), (''c'', 5)]). key \<notin> set (expected_names_of ?w)"
    by (simp add: e k)
  have "set [''a'', ''c''] - set [''a''] = {''c''}" by auto
  then show ?thesis
    using unexpected_default_parameters [OF d sub sur, of None empty_store] d sub sur
    by (simp add: e k)
qed

text \<open>
  C8. When the extra parameter names of the wrapper behaviour are exactly the keys of
  the defaults, building succeeds, and the callable that is returned reports the name,
  the qualified name and the module of the wrapper behaviour, not those of the internal
  helper it was defined as.
\<close>

theorem built_decorator_identity:
  assumes "distinct (fn_args w)"
    and "set (expected_names_of w) = set (dict_keys defaults)"
  shows "\<exists>f. decorator (Some w) target defaults s = (Inr (User_Decorator f), snd (alloc defaults s))
     \<and> fo_attrs f ''__name__'' = Some (fn_name w)
     \<and> fo_attrs f ''__qualname__'' = Some (fn_qualname w)
     \<and> fo_attrs f ''__module__'' = Some (fn_module w)"
proof -
  have d: "distinct (expected_names_of w)"
    using assms(1) by (simp add: expected_names_of_def)
  show ?thesis
    unfolding decorator_matching [OF d assms(2)]
    by (simp add: wraps_def def_function_def)
qed

theorem built_decorator_identity_witness:
  "distinct (fn_args \<lparr>fn_module = ''app.util'', fn_name = ''retry'', fn_qualname = ''Tools.retry'',
       fn_args = [''wrapped'', ''instance'', ''args'', ''kwargs'', ''a'']\<rparr>)
   \<and> set (expected_names_of \<lparr>fn_module = ''app.util'', fn_name = ''retry'', fn_qualname = ''Tools.retry'',
       fn_args = [''wrapped'', ''instance'', ''args'', ''kwargs'', ''a'']\<rparr>)
        = set (dict_keys [(''a'', 1::int)])
   \<and> (\<exists>f. fst (decorator (Some \<lparr>fn_module = ''app.util'', fn_name = ''retry'', fn_qualname = ''Tools.retry'',
       fn_args = [''wrapped'', ''instance'', ''args'', ''kwargs'', ''a'']\<rparr>)
         None [(''a'', 1::int)] empty_store) = Inr (User_Decorator f)
       \<and> fo_attrs f ''__name__'' = Some ''retry''
       \<and> fo_attrs f ''__qualname__'' = Some ''Tools.retry''
       \<and> fo_attrs f ''__module__'' = Some ''app.util'')"
proof -
  let ?w = "\<lparr>fn_module = ''app.util'', fn_name = ''retry'', fn_qualname = ''Tools.retry'',
       fn_args = [''wrapped'', ''instance'', ''args'', ''kwargs'', ''a'']\<rparr>"
  have d: "distinct (fn_args ?w)" by simp
  have e: "set (expected_names_of ?w) = set (dict_keys [(''a'', 1::int)])"
    by (simp add: expected_names_of_def WRAPPER_ARGLIST_def dict_keys_def)
  from built_decorator_identity [OF d e, of None empty_store] d e
  show ?thesis by auto
qed

text \<open>
  C7. Called without the wrapper behaviour, the builder returns a deferred builder that
  holds the defaults and the adapter target it was given. Applying that deferred builder
  to a behaviour is a call of the builder with the behaviour and those same defaults and
  target, and it gives what the one-call form gives: the same error when validation
  fails, and otherwise a decorator of the same shape with the same identity attributes,
  whose applications yield the same errors and the same wrapper constructs with the same
  parameter sets.
\<close>

theorem deferred_builder_equivalence:
  "decorator None target defaults s' = (Inr (Deferred target defaults), snd (alloc defaults s'))
   \<and> call_deferred target defaults w s'' = decorator (Some w) target defaults s''
   \<and> (\<forall>e. fst (call_deferred target defaults w (snd (decorator None target defaults s'))) = Inl e
          \<longleftrightarrow> fst (decorator (Some w) target defaults s) = Inl e)
   \<and> (\<forall>f. fst (decorator (Some w) target defaults s) = Inr (User_Decorator f) \<longrightarrow>
         (\<exists>f'. fst (call_deferred target defaults w (snd (decorator None target defaults s')))
                  = Inr (User_Decorator f')
            \<and> fo_attrs f' = fo_attrs f
            \<and> (case fo_call f of
                 Direct g \<Rightarrow> fo_call f' = Direct g
               | Parameterized p \<Rightarrow>
                   (\<exists>p'. fo_call f' = Parameterized p'
                      \<and> (\<forall>args kwargs.
                           application_view
                             (p' args kwargs
                                (snd (call_deferred target defaults w
                                        (snd (decorator None target defaults s')))))
                           = application_view
                               (p args kwargs (snd (decorator (Some w) target defaults s))))))))"
proof -
  let ?s1 = "snd (decorator None target defaults s')"
  let ?en = "expected_names_of w"
  have n: "decorator None target defaults s' =
      (Inr (Deferred target defaults), snd (alloc defaults s'))"
    by (rule decorator_None)
  have c: "call_deferred target defaults w s'' = decorator (Some w) target defaults s''" for s''
    by (simp add: call_deferred_def)
  have err: "fst (decorator (Some w) target defaults s1) = Inl e
      \<longleftrightarrow> fst (decorator (Some w) target defaults s2) = Inl e" for e and s1 s2 :: "'a store"
    by (auto simp: decorator_Some split: sum.splits if_splits)
  have ok: "\<exists>f'. fst (decorator (Some w) target defaults ?s1) = Inr (User_Decorator f')
            \<and> fo_attrs f' = fo_attrs f
            \<and> (case fo_call f of
                 Direct g \<Rightarrow> fo_call f' = Direct g
               | Parameterized p \<Rightarrow>
                   (\<exists>p'. fo_call f' = Parameterized p'
                      \<and> (\<forall>args kwargs.
                           application_view
                             (p' args kwargs (snd (decorator (Some w) target defaults ?s1)))
                           = application_view
                               (p args kwargs (snd (decorator (Some w) target defaults s))))))"
    if f: "fst (decorator (Some w) target defaults s) = Inr (User_Decorator f)" for f
  proof -
    obtain s1 where b: "decorator (Some w) target defaults s = (Inr (User_Decorator f), s1)"
      using f by (cases "decorator (Some w) target defaults s") simp
    from decorator_built [OF b] have
      d: "distinct ?en" and e: "set ?en = set (dict_keys defaults)"
      and s1: "s1 = snd (alloc defaults s)"
      and f_eq: "f = wraps w
            (if ?en \<noteq> []
             then def_function ''_partial'' ''decorator.<locals>._partial''
                    (Parameterized (partial_fn w target (next_addr s) ?en))
             else def_function ''_wrapper'' ''decorator.<locals>._wrapper''
                    (Direct (wrapper_fn w target)))"
      by simp_all
    note m = decorator_matching [OF d e, of target ?s1]
    show ?thesis
    proof (cases "?en = []")
      case True
      then show ?thesis
        by (simp add: m f_eq wraps_def def_function_def)
    next
      case False
      have "application_view (partial_fn w target (next_addr ?s1) ?en args kwargs
                (snd (alloc defaults ?s1)))
          = application_view (partial_fn w target (next_addr s) ?en args kwargs
                (snd (alloc defaults s)))" for args kwargs
        by (rule partial_fn_indep) simp_all
      then show ?thesis
        using False by (simp add: m b s1 [symmetric] f_eq wraps_def def_function_def)
    qed
  qed
  show ?thesis
    using n c err [of ?s1 _ s] ok by (simp only: simp_thms) blast
qed


theorem deferred_builder_equivalence_witness:
  "\<exists>f p f' p'.
     fst (decorator
            (Some \<lparr>fn_module = ''m'', fn_name = ''retry'', fn_qualname = ''retry'',
                   fn_args = WRAPPER_ARGLIST @ [''a'']\<rparr>)
            None [(''a'', 1::int)] empty_store) = Inr (User_Decorator f)
     \<and> fo_call f = Parameterized p
     \<and> fst (call_deferred None [(''a'', 1::int)]
              \<lparr>fn_module = ''m'', fn_name = ''retry'', fn_qualname = ''retry'',
                fn_args = WRAPPER_ARGLIST @ [''a'']\<rparr>
              (snd (decorator None None [(''a'', 1::int)] empty_store)))
         = Inr (User_Decorator f')
     \<and> fo_attrs f' = fo_attrs f
     \<and> fo_call f' = Parameterized p'
     \<and> application_view
          (p' [9] []
             (snd (call_deferred None [(''a'', 1::int)]
                \<lparr>fn_module = ''m'', fn_name = ''retry'', fn_qualname = ''retry'',
                  fn_args = WRAPPER_ARGLIST @ [''a'']\<rparr>
                (snd (decorator None None [(''a'', 1::int)] empty_store)))))
        = application_view
            (p [9] []
               (snd (decorator
                  (Some \<lparr>fn_module = ''m'', fn_name = ''retry'', fn_qualname = ''retry'',
                         fn_args = WRAPPER_ARGLIST @ [''a'']\<rparr>)
                  None [(''a'', 1::int)] empty_store)))"
proof -
  let ?w = "\<lparr>fn_module = ''m'', fn_name = ''retry'', fn_qualname = ''retry'',
              fn_args = WRAPPER_ARGLIST @ [''a'']\<rparr>"
  let ?d = "[(''a'', 1::int)]"
  let ?direct = "decorator (Some ?w) None ?d empty_store"
  let ?deferred = "call_deferred None ?d ?w (snd (decorator None None ?d empty_store))"
  have en: "expected_names_of ?w = [''a'']"
    by (simp add: expected_names_of_def WRAPPER_ARGLIST_def)
  have "distinct (expected_names_of ?w)"
    and "set (expected_names_of ?w) = set (dict_keys ?d)"
    by (simp_all add: en dict_keys_def)
  from decorator_matching [OF this, of None empty_store]
  obtain f p where f: "fst ?direct = Inr (User_Decorator f)" and p: "fo_call f = Parameterized p"
    by (simp add: en wraps_def def_function_def)
  from deferred_builder_equivalence [of None ?d empty_store ?w _ empty_store]
  have "\<forall>f. fst ?direct = Inr (User_Decorator f) \<longrightarrow>
         (\<exists>f'. fst ?deferred = Inr (User_Decorator f')
            \<and> fo_attrs f' = fo_attrs f
            \<and> (case fo_call f of
                 Direct g \<Rightarrow> fo_call f' = Direct g
               | Parameterized p \<Rightarrow>
                   (\<exists>p'. fo_call f' = Parameterized p'
                      \<and> (\<forall>args kwargs.
                           application_view (p' args kwargs (snd ?deferred))
                           = application_view (p args kwargs (snd ?direct))))))"
    by blast
  from this [rule_format, OF f] p obtain f' p' where
    "fst ?deferred = Inr (User_Decorator f')" "fo_attrs f' = fo_attrs f"
    "fo_call f' = Parameterized p'"
    "\<forall>args kwargs. application_view (p' args kwargs (snd ?deferred))
                           = application_view (p args kwargs (snd ?direct))"
    by auto
  with f p show ?thesis by blast
qed

text \<open>
  C5. For a parameterised decorator, applied to positional and keyword arguments in any
  store where its default dictionary is intact: the application itself ends in
  \<open>UnexpectedParameters\<close> exactly when there are more positional arguments than
  expected names, or a keyword name is not a key of the defaults, or a name is given
  both by position and by keyword. The first two cases are reported with the counts
  and with the unknown names. No other exception arises. An application that ends
  without the exception has returned the inner function, which only constructs the
  wrapper: nothing is left to fail later.
\<close>

theorem unexpected_parameters_at_application:
  assumes "decorator (Some w) target defaults s0 = (Inr (User_Decorator f), s1)"
    and "fo_call f = Parameterized p"
    and "next_addr s0 < next_addr s"
    and "cells s (next_addr s0) = defaults"
  shows "((\<exists>detail s'. p args kwargs s = (Inl (UnexpectedParameters detail (fn_name w)), s'))
          \<longleftrightarrow> (length (expected_names_of w) < length args
               \<or> (\<exists>k \<in> set (dict_keys kwargs). k \<notin> set (dict_keys defaults))
               \<or> (\<exists>i<length args. i < length (expected_names_of w)
                      \<and> expected_names_of w ! i \<in> set (dict_keys kwargs))))
     \<and> (\<forall>e s'. p args kwargs s = (Inl e, s') \<longrightarrow>
            (\<exists>detail. e = UnexpectedParameters detail (fn_name w)))
     \<and> (length (expected_names_of w) < length args \<longrightarrow>
            fst (p args kwargs s) =
              Inl (UnexpectedParameters
                     (Too_Many_Positional (length (expected_names_of w)) (length args))
                     (fn_name w)))
     \<and> (length args \<le> length (expected_names_of w)
          \<and> (\<exists>k \<in> set (dict_keys kwargs). k \<notin> set (dict_keys defaults)) \<longrightarrow>
            fst (p args kwargs s) =
              Inl (UnexpectedParameters
                     (Unknown_Names (filter (\<lambda>k. k \<notin> set (dict_keys defaults)) (dict_keys kwargs)))
                     (fn_name w)))
     \<and> ((\<exists>detail s'. p args kwargs s = (Inl (UnexpectedParameters detail (fn_name w)), s'))
          \<or> (\<exists>cp s'. p args kwargs s = (Inr (wrapper_params_fn w target cp), s')))"
proof -
  let ?en = "expected_names_of w"
  let ?dp = "next_addr s0"
  from built_parameterized [OF assms(1,2)] have
    p: "p = partial_fn w target ?dp ?en" and d: "distinct ?en" by simp_all
  note cases = partial_fn_cases [OF assms(3) d, of args kwargs w target]
  have sub: "set (dict_keys kwargs) \<subseteq> set (dict_keys defaults)
      \<longleftrightarrow> \<not> (\<exists>k \<in> set (dict_keys kwargs). k \<notin> set (dict_keys defaults))"
    by auto
  have 1: "(\<exists>detail s'. p args kwargs s = (Inl (UnexpectedParameters detail (fn_name w)), s'))
          \<longleftrightarrow> (length ?en < length args
               \<or> (\<exists>k \<in> set (dict_keys kwargs). k \<notin> set (dict_keys defaults))
               \<or> (\<exists>i<length args. i < length ?en \<and> ?en ! i \<in> set (dict_keys kwargs)))"
    using cases unfolding p assms(4) sub by auto
  have 2: "\<forall>e s'. p args kwargs s = (Inl e, s') \<longrightarrow>
            (\<exists>detail. e = UnexpectedParameters detail (fn_name w))"
    using partial_fn_Inl [OF assms(3) d] unfolding p by blast
  have 3: "length ?en < length args \<longrightarrow>
            fst (p args kwargs s) =
              Inl (UnexpectedParameters (Too_Many_Positional (length ?en) (length args))
                     (fn_name w))"
    unfolding p by (simp add: partial_fn_too_many)
  have 4: "length args \<le> length ?en
          \<and> (\<exists>k \<in> set (dict_keys kwargs). k \<notin> set (dict_keys defaults)) \<longrightarrow>
            fst (p args kwargs s) =
              Inl (UnexpectedParameters
                     (Unknown_Names (filter (\<lambda>k. k \<notin> set (dict_keys defaults)) (dict_keys kwargs)))
                     (fn_name w))"
  proof (intro impI, elim conjE)
    assume le: "length args \<le> length ?en"
      and "\<exists>k \<in> set (dict_keys kwargs). k \<notin> set (dict_keys defaults)"
    then have "filter (\<lambda>name. \<not> dict_contains (cells s ?dp) name) (dict_keys kwargs) \<noteq> []"
      by (simp add: no_unknown_iff assms(4) sub)
    from partial_fn_unknown [OF le assms(3) this, of w target]
    show "fst (p args kwargs s) =
              Inl (UnexpectedParameters
                     (Unknown_Names (filter (\<lambda>k. k \<notin> set (dict_keys defaults)) (dict_keys kwargs)))
                     (fn_name w))"
      unfolding p by (simp add: assms(4) dict_contains_def)
  qed
  have 5: "(\<exists>detail s'. p args kwargs s = (Inl (UnexpectedParameters detail (fn_name w)), s'))
          \<or> (\<exists>cp s'. p args kwargs s = (Inr (wrapper_params_fn w target cp), s'))"
    using cases unfolding p by blast
  from 1 2 3 4 5 show ?thesis by (intro conjI)
qed


theorem unexpected_parameters_at_application_witness:
  "\<exists>f p s1.
     decorator
       (Some \<lparr>fn_module = ''m'', fn_name = ''retry'', fn_qualname = ''retry'',
              fn_args = WRAPPER_ARGLIST @ [''a'', ''b'']\<rparr>)
       None [(''a'', 1::int), (''b'', 2)] empty_store = (Inr (User_Decorator f), s1)
     \<and> fo_call f = Parameterized p
     \<and> next_addr (empty_store :: int store) < next_addr s1
     \<and> cells s1 (next_addr (empty_store :: int store)) = [(''a'', 1), (''b'', 2)]
     \<and> (\<exists>detail s'. p [9] [(''a'', 9)] s1 = (Inl (UnexpectedParameters detail ''retry''), s'))
     \<and> fst (p [7, 8, 9] [] s1) = Inl (UnexpectedParameters (Too_Many_Positional 2 3) ''retry'')
     \<and> fst (p [] [(''c'', 5)] s1) = Inl (UnexpectedParameters (Unknown_Names [''c'']) ''retry'')
     \<and> (\<exists>cp s'. p [9] [] s1 =
           (Inr (wrapper_params_fn
                   \<lparr>fn_module = ''m'', fn_name = ''retry'', fn_qualname = ''retry'',
                     fn_args = WRAPPER_ARGLIST @ [''a'', ''b'']\<rparr> None cp), s'))"
proof -
  let ?w = "\<lparr>fn_module = ''m'', fn_name = ''retry'', fn_qualname = ''retry'',
              fn_args = WRAPPER_ARGLIST @ [''a'', ''b'']\<rparr>"
  let ?d = "[(''a'', 1::int), (''b'', 2)]"
  let ?s1 = "snd (alloc ?d empty_store)"
  have en: "expected_names_of ?w = [''a'', ''b'']"
    by (simp add: expected_names_of_def WRAPPER_ARGLIST_def)
  have "distinct (expected_names_of ?w)"
    and "set (expected_names_of ?w) = set (dict_keys ?d)"
    by (simp_all add: en dict_keys_def)
  from decorator_matching [OF this, of None empty_store]
  obtain f p where b: "decorator (Some ?w) None ?d empty_store = (Inr (User_Decorator f), ?s1)"
    and p: "fo_call f = Parameterized p"
    by (simp add: en wraps_def def_function_def)
  have h3: "next_addr (empty_store :: int store) < next_addr ?s1" by simp
  have h4: "cells ?s1 (next_addr (empty_store :: int store)) = ?d" by simp
  note th = unexpected_parameters_at_application [OF b p h3 h4]
  have c1: "\<exists>detail s'. p [9] [(''a'', 9)] ?s1 = (Inl (UnexpectedParameters detail ''retry''), s')"
    using th [of "[9]" "[(''a'', 9)]"] by (simp add: en dict_keys_def)
  have c2: "fst (p [7, 8, 9] [] ?s1) = Inl (UnexpectedParameters (Too_Many_Positional 2 3) ''retry'')"
    using th [of "[7, 8, 9]" "[]"] by (simp add: en)
  have c3: "fst (p [] [(''c'', 5)] ?s1) = Inl (UnexpectedParameters (Unknown_Names [''c'']) ''retry'')"
    using th [of "[]" "[(''c'', 5)]"] by (simp add: en dict_keys_def)
  have "\<not> (\<exists>detail s'. p [9] [] ?s1 = (Inl (UnexpectedParameters detail ''retry''), s'))"
    using th [of "[9]" "[]"] by (simp add: en dict_keys_def)
  then have c4: "\<exists>cp s'. p [9] [] ?s1 = (Inr (wrapper_params_fn ?w None cp), s')"
    using th [of "[9]" "[]"] by simp
  from b p h3 h4 c1 c2 c3 c4 show ?thesis by blast
qed

text \<open>
  C9. The default parameter set of a parameterised decorator is never changed after the
  decorator is defined. One application, whether it succeeds or fails, leaves every
  dictionary that existed before it as it was; so after any sequence of applications the
  default dictionary still holds the defaults, and an application then yields what the
  same application yields right after the definition: the same error, or the same
  wrapper constructs with equal parameter sets. The parameter set of a successful
  application lives in a dictionary made by that application, a copy of the defaults
  overlaid with the supplied values.
\<close>

theorem defaults_never_mutated:
  assumes "decorator (Some w) target defaults (s0 :: 'v store) = (Inr (User_Decorator f), s1)"
    and "fo_call f = Parameterized p"
  shows "cells s1 (next_addr s0) = defaults
     \<and> (\<forall>args kwargs (s :: 'v store) r s'. p args kwargs s = (r, s') \<longrightarrow>
            next_addr s \<le> next_addr s' \<and> (\<forall>a<next_addr s. cells s' a = cells s a))
     \<and> cells (apply_sequence p calls s1) (next_addr s0) = defaults
     \<and> (\<forall>args kwargs.
            application_view (p args kwargs (apply_sequence p calls s1)) =
            application_view (p args kwargs s1))
     \<and> (\<forall>args kwargs g s'.
            p args kwargs (apply_sequence p calls s1) = (Inr g, s') \<longrightarrow>
            (\<exists>cp. next_addr (apply_sequence p calls s1) \<le> cp
                \<and> (\<forall>func. fw_params (g func) = Some cp)
                \<and> cells s' cp =
                     dict_update defaults (dict_update kwargs (zip (expected_names_of w) args))
                \<and> cells s' (next_addr s0) = defaults))"
proof -
  let ?en = "expected_names_of w"
  let ?dp = "next_addr s0"
  let ?P = "partial_fn w target ?dp ?en"
  let ?after = "apply_sequence ?P calls s1"
  from built_parameterized [OF assms] have
    p: "p = partial_fn w target ?dp ?en" and d: "distinct ?en"
    and s1: "s1 = snd (alloc defaults s0)"
    by simp_all
  have 1: "cells s1 ?dp = defaults" and v1: "?dp < next_addr s1"
    by (simp_all add: s1)
  have 2: "\<forall>args kwargs (s :: 'v store) r s'. ?P args kwargs s = (r, s') \<longrightarrow>
            next_addr s \<le> next_addr s' \<and> (\<forall>a<next_addr s. cells s' a = cells s a)"
    using partial_fn_frame by blast
  have fr: "next_addr s1 \<le> next_addr ?after"
    "\<forall>a<next_addr s1. cells ?after a = cells s1 a"
    using apply_sequence_frame [of s1 w target ?dp ?en calls] by simp_all
  have v: "?dp < next_addr ?after" using fr(1) v1 by simp
  have 3: "cells ?after ?dp = defaults" using fr(2) v1 1 by simp
  have 4: "\<forall>args kwargs.
            application_view (?P args kwargs ?after) = application_view (?P args kwargs s1)"
    using partial_fn_indep [OF v v1] 3 1 by simp
  have 5: "\<forall>args kwargs g s'.
            ?P args kwargs ?after = (Inr g, s') \<longrightarrow>
            (\<exists>cp. next_addr ?after \<le> cp
                \<and> (\<forall>func. fw_params (g func) = Some cp)
                \<and> cells s' cp = dict_update defaults (dict_update kwargs (zip ?en args))
                \<and> cells s' ?dp = defaults)"
  proof (intro allI impI)
    fix args kwargs g and s' :: "'v store"
    assume r: "?P args kwargs ?after = (Inr g, s')"
    from partial_fn_Inr [OF v d r] have
      g: "g = wrapper_params_fn w target (Suc (next_addr ?after))"
      and c: "cells s' (Suc (next_addr ?after)) =
                dict_update (cells ?after ?dp) (dict_update kwargs (zip ?en args))"
      by simp_all
    have "cells s' ?dp = cells ?after ?dp"
      using 2 [rule_format, OF r] v by simp
    moreover have "\<forall>func. fw_params (g func) = Some (Suc (next_addr ?after))"
      by (simp add: g wrapper_params_fn_eq)
    ultimately show "\<exists>cp. next_addr ?after \<le> cp
                \<and> (\<forall>func. fw_params (g func) = Some cp)
                \<and> cells s' cp = dict_update defaults (dict_update kwargs (zip ?en args))
                \<and> cells s' ?dp = defaults"
      using c 3 by (intro exI [of _ "Suc (next_addr ?after)"]) simp
  qed
  from 1 2 3 4 5 show ?thesis unfolding p by (intro conjI)
qed


theorem defaults_never_mutated_witness:
  "\<exists>f p s1.
     decorator
       (Some \<lparr>fn_module = ''m'', fn_name = ''retry'', fn_qualname = ''retry'',
              fn_args = WRAPPER_ARGLIST @ [''a'', ''b'']\<rparr>)
       None [(''a'', 1::int), (''b'', 2)] empty_store = (Inr (User_Decorator f), s1)
     \<and> fo_call f = Parameterized p
     \<and> cells (apply_sequence p [([9], []), ([], [(''c'', 5)]), ([7], [(''a'', 8)])] s1)
          (next_addr (empty_store :: int store)) = [(''a'', 1), (''b'', 2)]
     \<and> application_view
          (p [9] [] (apply_sequence p [([9], []), ([], [(''c'', 5)]), ([7], [(''a'', 8)])] s1))
        = application_view (p [9] [] s1)"
proof -
  let ?w = "\<lparr>fn_module = ''m'', fn_name = ''retry'', fn_qualname = ''retry'',
              fn_args = WRAPPER_ARGLIST @ [''a'', ''b'']\<rparr>"
  let ?d = "[(''a'', 1::int), (''b'', 2)]"
  let ?s1 = "snd (alloc ?d empty_store)"
  have en: "expected_names_of ?w = [''a'', ''b'']"
    by (simp add: expected_names_of_def WRAPPER_ARGLIST_def)
  have "distinct (expected_names_of ?w)"
    and "set (expected_names_of ?w) = set (dict_keys ?d)"
    by (simp_all add: en dict_keys_def)
  from decorator_matching [OF this, of None empty_store]
  obtain f p where b: "decorator (Some ?w) None ?d empty_store = (Inr (User_Decorator f), ?s1)"
    and p: "fo_call f = Parameterized p"
    by (simp add: en wraps_def def_function_def)
  from defaults_never_mutated
    [OF b p, of "[([9], []), ([], [(''c'', 5)]), ([7], [(''a'', 8)])]"]
  have "cells (apply_sequence p [([9], []), ([], [(''c'', 5)]), ([7], [(''a'', 8)])] ?s1)
          (next_addr (empty_store :: int store)) = ?d"
    and "application_view
          (p [9] [] (apply_sequence p [([9], []), ([], [(''c'', 5)]), ([7], [(''a'', 8)])] ?s1))
        = application_view (p [9] [] ?s1)"
    by blast+
  with b p show ?thesis by blast
qed

text \<open>
  C1. For a wrapper behaviour whose extra parameter names are \<open>a\<close> and \<open>b\<close>, built with
  the defaults \<open>{a: 1, b: 2}\<close>, the decorator is the parameterised one, and the parameter
  set an application gives the wrapper construct is the defaults overlaid with the
  supplied values, the positional argument at position \<open>i\<close> going to the expected name at
  position \<open>i\<close>. For every application that supplies at most two positional arguments,
  keywords among \<open>a\<close> and \<open>b\<close>, and no name twice: each positional argument is found
  under the name of its position, each keyword argument under its own name, every other
  name keeps its default, and the keys are \<open>a\<close> and \<open>b\<close>. In particular, without
  arguments the set is \<open>{a: 1, b: 2}\<close>, with the positional \<open>9\<close> it is \<open>{a: 9, b: 2}\<close>,
  with the keyword \<open>a = 9\<close> it is \<open>{a: 9, b: 2}\<close>, and with the positionals \<open>7, 8\<close> it is
  \<open>{a: 7, b: 8}\<close>.
\<close>

theorem merge_example:
  "expected_names_of \<lparr>fn_module = m, fn_name = n, fn_qualname = q,
                       fn_args = WRAPPER_ARGLIST @ [''a'', ''b'']\<rparr> = [''a'', ''b'']
   \<and> decorator
       (Some \<lparr>fn_module = m, fn_name = n, fn_qualname = q,
              fn_args = WRAPPER_ARGLIST @ [''a'', ''b'']\<rparr>)
       target [(''a'', 1::int), (''b'', 2)] s0 =
       (Inr (User_Decorator
          (wraps \<lparr>fn_module = m, fn_name = n, fn_qualname = q,
                   fn_args = WRAPPER_ARGLIST @ [''a'', ''b'']\<rparr>
             (def_function ''_partial'' ''decorator.<locals>._partial''
                (Parameterized
                   (partial_fn \<lparr>fn_module = m, fn_name = n, fn_qualname = q,
                                 fn_args = WRAPPER_ARGLIST @ [''a'', ''b'']\<rparr>
                      target (next_addr s0) [''a'', ''b'']))))),
        snd (alloc [(''a'', 1), (''b'', 2)] s0))
   \<and> application_view
        (partial_fn \<lparr>fn_module = m, fn_name = n, fn_qualname = q,
                      fn_args = WRAPPER_ARGLIST @ [''a'', ''b'']\<rparr>
           target (next_addr s0) [''a'', ''b''] [] []
           (snd (alloc [(''a'', 1), (''b'', 2)] s0)))
      = Inr (\<lambda>func.
          (wrapper_fn \<lparr>fn_module = m, fn_name = n, fn_qualname = q,
                        fn_args = WRAPPER_ARGLIST @ [''a'', ''b'']\<rparr> target func,
           Some [(''a'', 1), (''b'', 2)]))
   \<and> application_view
        (partial_fn \<lparr>fn_module = m, fn_name = n, fn_qualname = q,
                      fn_args = WRAPPER_ARGLIST @ [''a'', ''b'']\<rparr>
           target (next_addr s0) [''a'', ''b''] [9] []
           (snd (alloc [(''a'', 1), (''b'', 2)] s0)))
      = Inr (\<lambda>func.
          (wrapper_fn \<lparr>fn_module = m, fn_name = n, fn_qualname = q,
                        fn_args = WRAPPER_ARGLIST @ [''a'', ''b'']\<rparr> target func,
           Some [(''a'', 9), (''b'', 2)]))
   \<and> application_view
        (partial_fn \<lparr>fn_module = m, fn_name = n, fn_qualname = q,
                      fn_args = WRAPPER_ARGLIST @ [''a'', ''b'']\<rparr>
           target (next_addr s0) [''a'', ''b''] [] [(''a'', 9)]
           (snd (alloc [(''a'', 1), (''b'', 2)] s0)))
      = Inr (\<lambda>func.
          (wrapper_fn \<lparr>fn_module = m, fn_name = n, fn_qualname = q,
                        fn_args = WRAPPER_ARGLIST @ [''a'', ''b'']\<rparr> target func,
           Some [(''a'', 9), (''b'', 2)]))
   \<and> application_view
        (partial_fn \<lparr>fn_module = m, fn_name = n, fn_qualname = q,
                      fn_args = WRAPPER_ARGLIST @ [''a'', ''b'']\<rparr>
           target (next_addr s0) [''a'', ''b''] [7, 8] []
           (snd (alloc [(''a'', 1), (''b'', 2)] s0)))
      = Inr (\<lambda>func.
          (wrapper_fn \<lparr>fn_module = m, fn_name = n, fn_qualname = q,
                        fn_args = WRAPPER_ARGLIST @ [''a'', ''b'']\<rparr> target func,
           Some [(''a'', 7), (''b'', 8)]))
   \<and> (\<forall>args kwargs.
         length args \<le> 2 \<and> distinct (dict_keys kwargs)
         \<and> set (dict_keys kwargs) \<subseteq> {''a'', ''b''}
         \<and> (\<forall>i<length args. [''a'', ''b''] ! i \<notin> set (dict_keys kwargs))
         \<longrightarrow>
         (\<exists>params.
            application_view
              (partial_fn \<lparr>fn_module = m, fn_name = n, fn_qualname = q,
                            fn_args = WRAPPER_ARGLIST @ [''a'', ''b'']\<rparr>
                 target (next_addr s0) [''a'', ''b''] args kwargs
                 (snd (alloc [(''a'', 1), (''b'', 2)] s0)))
            = Inr (\<lambda>func.
                (wrapper_fn \<lparr>fn_module = m, fn_name = n, fn_qualname = q,
                              fn_args = WRAPPER_ARGLIST @ [''a'', ''b'']\<rparr> target func,
                 Some params))
            \<and> params = dict_update [(''a'', 1), (''b'', 2)]
                          (dict_update kwargs (zip [''a'', ''b''] args))
            \<and> (\<forall>i<length args. map_of params ([''a'', ''b''] ! i) = Some (args ! i))
            \<and> (\<forall>k v. (k, v) \<in> set kwargs \<longrightarrow> map_of params k = Some v)
            \<and> (\<forall>k. k \<notin> set (take (length args) [''a'', ''b''])
                      \<and> k \<notin> set (dict_keys kwargs)
                    \<longrightarrow> map_of params k = map_of [(''a'', 1), (''b'', 2)] k)
            \<and> set (dict_keys params) = {''a'', ''b''}))"
proof -
  let ?w = "\<lparr>fn_module = m, fn_name = n, fn_qualname = q,
              fn_args = WRAPPER_ARGLIST @ [''a'', ''b'']\<rparr>"
  let ?d = "[(''a'', 1::int), (''b'', 2)]"
  let ?en = "[''a'', ''b'']"
  let ?s1 = "snd (alloc ?d s0)"
  let ?dp = "next_addr s0"
  have en: "expected_names_of ?w = ?en"
    by (simp add: expected_names_of_def WRAPPER_ARGLIST_def)
  have "distinct (expected_names_of ?w)"
    and "set (expected_names_of ?w) = set (dict_keys ?d)"
    by (simp_all add: en dict_keys_def)
  from decorator_matching [OF this, of target s0]
  have b: "decorator (Some ?w) target ?d s0 =
       (Inr (User_Decorator
          (wraps ?w (def_function ''_partial'' ''decorator.<locals>._partial''
                (Parameterized (partial_fn ?w target ?dp ?en))))),
        ?s1)"
    by (simp add: en)
  have v: "?dp < next_addr ?s1" by simp
  have cell: "cells ?s1 ?dp = ?d" by simp
  note view = partial_fn_view [OF v, of ?w target ?en]
  have a0: "application_view (partial_fn ?w target ?dp ?en [] [] ?s1)
      = Inr (\<lambda>func. (wrapper_fn ?w target func, Some [(''a'', 1), (''b'', 2)]))"
    by (simp add: view dict_keys_def)
  have a1: "application_view (partial_fn ?w target ?dp ?en [9] [] ?s1)
      = Inr (\<lambda>func. (wrapper_fn ?w target func, Some [(''a'', 9), (''b'', 2)]))"
    by (simp add: view dict_keys_def dict_contains_def)
  have a2: "application_view (partial_fn ?w target ?dp ?en [] [(''a'', 9)] ?s1)
      = Inr (\<lambda>func. (wrapper_fn ?w target func, Some [(''a'', 9), (''b'', 2)]))"
    by (simp add: view dict_keys_def dict_contains_def)
  have a3: "application_view (partial_fn ?w target ?dp ?en [7, 8] [] ?s1)
      = Inr (\<lambda>func. (wrapper_fn ?w target func, Some [(''a'', 7), (''b'', 8)]))"
    by (simp add: view dict_keys_def dict_contains_def)
  have gen: "\<exists>params.
            application_view (partial_fn ?w target ?dp ?en args kwargs ?s1)
            = Inr (\<lambda>func. (wrapper_fn ?w target func, Some params))
            \<and> params = dict_update ?d (dict_update kwargs (zip ?en args))
            \<and> (\<forall>i<length args. map_of params (?en ! i) = Some (args ! i))
            \<and> (\<forall>k v. (k, v) \<in> set kwargs \<longrightarrow> map_of params k = Some v)
            \<and> (\<forall>k. k \<notin> set (take (length args) ?en) \<and> k \<notin> set (dict_keys kwargs)
                    \<longrightarrow> map_of params k = map_of ?d k)
            \<and> set (dict_keys params) = {''a'', ''b''}"
    if h: "length args \<le> 2" "distinct (dict_keys kwargs)"
      "set (dict_keys kwargs) \<subseteq> {''a'', ''b''}"
      "\<forall>i<length args. ?en ! i \<notin> set (dict_keys kwargs)"
    for args :: "int list" and kwargs
  proof -
    let ?params = "dict_update ?d (dict_update kwargs (zip ?en args))"
    have le: "length args \<le> length ?en" using h(1) by simp
    have den: "distinct ?en" by simp
    have "set (dict_keys kwargs) \<subseteq> set (dict_keys (cells ?s1 ?dp))"
      using h(3) by (simp add: cell dict_keys_def)
    then have nu: "filter (\<lambda>name. \<not> dict_contains (cells ?s1 ?dp) name) (dict_keys kwargs) = []"
      by (simp only: no_unknown_iff)
    have nc: "\<forall>j<length args. \<not> dict_contains kwargs (?en ! j)"
      using h(4) by (simp add: dict_contains_def)
    from partial_fn_ok [OF le v den nu nc, of ?w target] obtain s' where
      r: "partial_fn ?w target ?dp ?en args kwargs ?s1 =
            (Inr (wrapper_params_fn ?w target (Suc (next_addr ?s1))), s')"
      and c: "cells s' (Suc (next_addr ?s1)) = dict_update (cells ?s1 ?dp) (dict_update kwargs (zip ?en args))"
      by blast
    have av: "application_view (partial_fn ?w target ?dp ?en args kwargs ?s1)
            = Inr (\<lambda>func. (wrapper_fn ?w target func, Some ?params))"
      using c by (simp add: r application_view_def resolve_wrapper_params_fn)
    note look = merged_lookup [OF den le h(2,4), of ?d]
    have "set (dict_keys (zip ?en args)) \<subseteq> set ?en"
      by (auto simp: dict_keys_def dest: set_zip_leftD)
    moreover have "set (dict_keys ?params) =
        set (dict_keys ?d) \<union> (set (dict_keys kwargs) \<union> set (dict_keys (zip ?en args)))"
      by (simp only: keys_dict_update)
    moreover have "set (dict_keys ?d) = {''a'', ''b''}"
      by (simp add: dict_keys_def)
    ultimately have keys: "set (dict_keys ?params) = {''a'', ''b''}"
      using h(3) by auto
    from av look keys show ?thesis by blast
  qed
  from en b a0 a1 a2 a3 gen show ?thesis by (intro conjI allI impI) blast+
qed


theorem merge_example_witness:
  "length [7::int] \<le> 2 \<and> distinct (dict_keys [(''b'', 5::int)])
   \<and> set (dict_keys [(''b'', 5::int)]) \<subseteq> {''a'', ''b''}
   \<and> [''a'', ''b''] ! 0 \<notin> set (dict_keys [(''b'', 5::int)])
   \<and> (\<exists>params.
         application_view
           (partial_fn \<lparr>fn_module = ''m'', fn_name = ''retry'', fn_qualname = ''retry'',
                         fn_args = WRAPPER_ARGLIST @ [''a'', ''b'']\<rparr>
              None (next_addr (empty_store :: int store)) [''a'', ''b''] [7] [(''b'', 5)]
              (snd (alloc [(''a'', 1::int), (''b'', 2)] empty_store)))
         = Inr (\<lambda>func.
             (wrapper_fn \<lparr>fn_module = ''m'', fn_name = ''retry'', fn_qualname = ''retry'',
                           fn_args = WRAPPER_ARGLIST @ [''a'', ''b'']\<rparr> None func,
              Some params))
         \<and> params = [(''a'', 7), (''b'', 5)]
         \<and> map_of params ''a'' = Some 7
         \<and> map_of params ''b'' = Some 5)"
proof -
  let ?w = "\<lparr>fn_module = ''m'', fn_name = ''retry'', fn_qualname = ''retry'',
              fn_args = WRAPPER_ARGLIST @ [''a'', ''b'']\<rparr>"
  let ?kw = "[(''b'', 5::int)]"
  let ?view = "\<lambda>params. application_view
              (partial_fn ?w None (next_addr (empty_store :: int store)) [''a'', ''b'']
                 [7] ?kw (snd (alloc [(''a'', 1::int), (''b'', 2)] empty_store)))
            = Inr (\<lambda>func. (wrapper_fn ?w None func, Some params))"
  have h1: "length [7::int] \<le> 2" by simp
  have h2: "distinct (dict_keys ?kw)" by (simp add: dict_keys_def)
  have h3: "set (dict_keys ?kw) \<subseteq> {''a'', ''b''}" by (simp add: dict_keys_def)
  have h4: "[''a'', ''b''] ! 0 \<notin> set (dict_keys ?kw)" by (simp add: dict_keys_def)
  have h4': "\<forall>i<length [7::int]. [''a'', ''b''] ! i \<notin> set (dict_keys ?kw)"
    using h4 by simp
  note h = conjI [OF h1 conjI [OF h2 conjI [OF h3 h4']]]
  note general =
    merge_example [of "''m''" "''retry''" "''retry''" None "empty_store :: int store",
      THEN conjunct2, THEN conjunct2, THEN conjunct2, THEN conjunct2, THEN conjunct2,
      THEN conjunct2]
  from general [rule_format, of "[7]" ?kw, OF h] obtain params where
    all: "?view params
      \<and> params = dict_update [(''a'', 1), (''b'', 2)] (dict_update ?kw (zip [''a'', ''b''] [7]))
      \<and> (\<forall>i<length [7::int]. map_of params ([''a'', ''b''] ! i) = Some ([7] ! i))
      \<and> (\<forall>k v. (k, v) \<in> set ?kw \<longrightarrow> map_of params k = Some v)
      \<and> (\<forall>k. k \<notin> set (take (length [7::int]) [''a'', ''b''])
                      \<and> k \<notin> set (dict_keys ?kw)
                    \<longrightarrow> map_of params k = map_of [(''a'', 1), (''b'', 2)] k)
      \<and> set (dict_keys params) = {''a'', ''b''}"
    ..
  note v = all [THEN conjunct1]
  note e = all [THEN conjunct2, THEN conjunct1]
  note pos = all [THEN conjunct2, THEN conjunct2, THEN conjunct1]
  note key = all [THEN conjunct2, THEN conjunct2, THEN conjunct2, THEN conjunct1]
  have e': "params = [(''a'', 7), (''b'', 5)]" using e by simp
  have a: "map_of params ''a'' = Some 7" using pos [rule_format, of 0] by simp
  have b: "map_of params ''b'' = Some 5" using key [rule_format, of "''b''" 5] by simp
  have "\<exists>params. ?view params \<and> params = [(''a'', 7), (''b'', 5)]
      \<and> map_of params ''a'' = Some 7 \<and> map_of params ''b'' = Some 5"
    by (rule exI [of _ params]) (rule conjI [OF v conjI [OF e' conjI [OF a b]]])
  from conjI [OF h1 conjI [OF h2 conjI [OF h3 conjI [OF h4 this]]]]
  show ?thesis .
qed









end
